theory Spec2Isabelle
  imports Main "HOL-Library.AList"
begin

section \<open>The Graph of \<^verbatim>\<open>src/distribution/Graph.js\<close>\<close>

text \<open>
  The graph is a modified incidence list. A \<^verbatim>\<open>Graph\<close> object owns the dictionary
  \<^verbatim>\<open>_nodes\<close> and two counters; every node object owns two dictionaries of edge objects,
  \<^verbatim>\<open>_outEdges\<close> and \<^verbatim>\<open>_inEdges\<close>, and the counter \<^verbatim>\<open>_edgeCount\<close>.

  Modelling decisions.
  \<^item> An identifier is the property name it is used as, a string. The three dictionaries are
    plain objects, so a lookup \<^verbatim>\<open>obj[name]\<close> finds the own property, or else what
    \<^verbatim>\<open>Object.prototype\<close> defines under that name (\<^verbatim>\<open>constructor\<close>, \<^verbatim>\<open>toString\<close>, ...): a truthy
    value that is no node and no edge. The operations test their lookups for truthiness
    only, and none of them ever creates an own property under such a name; the keys of the
    dictionaries are therefore the type \<open>key\<close> of all other names.
  \<^item> \<^verbatim>\<open>_nodes\<close> is only ever read and written by name in the operations below, so it is
    a map. The edge dictionaries are enumerated by \<^verbatim>\<open>for ... in\<close>, so they are association
    lists in insertion order: a new key goes to the end (\<open>AList.update\<close>), \<^verbatim>\<open>delete\<close> removes
    the key (\<open>AList.delete\<close>). JavaScript enumerates keys that look like array indices
    first, in numeric order; the statements about returned arrays below are about their
    length, their members and their repetition, not about that order.
  \<^item> A value read from a dictionary is \<^verbatim>\<open>undefined\<close>, an object of the dictionary, or a
    value inherited from \<^verbatim>\<open>Object.prototype\<close>; only \<^verbatim>\<open>undefined\<close> is falsy.
  \<^item> \<open>nodeSize\<close> and \<open>_edgeCount\<close> only ever move by integer steps: \<open>int\<close>. They are not
    bounded below. \<open>edgeSize\<close> is a number that can also become \<^verbatim>\<open>NaN\<close>, when \<^verbatim>\<open>removeNode\<close>
    subtracts the \<^verbatim>\<open>_edgeCount\<close> of an inherited value, which is \<^verbatim>\<open>undefined\<close>.
  \<^item> Every node object is referenced from exactly one entry of \<^verbatim>\<open>_nodes\<close>, so its name is its
    address: a variable holding a node is the name, and a mutation through the variable is
    an update of the entry. Reading a property of \<^verbatim>\<open>undefined\<close> throws a \<^verbatim>\<open>TypeError\<close>. An
    operation either returns a value and the state it leaves (\<open>Inr\<close>), or throws, and then
    the state is the one at the throw (\<open>Inl\<close>).
  \<^item> Edge objects are shared between two dictionaries and compared with \<^verbatim>\<open>===\<close>, so an edge
    carries the reference it was allocated at; \<open>nextRef\<close> is the allocation counter of the
    heap.
\<close>

subsection \<open>Property names and values\<close>

text \<open>The names \<^verbatim>\<open>Object.prototype\<close> defines.\<close>

definition proto_names :: "string list" where
  "proto_names =
     [''constructor'', ''toString'', ''toLocaleString'', ''valueOf'', ''hasOwnProperty'',
      ''isPrototypeOf'', ''propertyIsEnumerable'', ''__proto__'', ''__defineGetter__'',
      ''__defineSetter__'', ''__lookupGetter__'', ''__lookupSetter__'']"

typedef key = "{s :: string. s \<notin> set proto_names}"
  morphisms key_name Key
proof
  show "''A'' \<in> {s :: string. s \<notin> set proto_names}"
    by (simp add: proto_names_def)
qed

definition key_of :: "string \<Rightarrow> key option" where
  "key_of s = (if s \<in> set proto_names then None else Some (Key s))"

datatype 'a js_value = Undefined | Obj 'a | Inherited string

datatype js_number = Num int | NaN

fun js_plus :: "js_number \<Rightarrow> js_number \<Rightarrow> js_number" where
  "js_plus (Num a) (Num b) = Num (a + b)"
| "js_plus a b = NaN"

fun js_minus :: "js_number \<Rightarrow> js_number \<Rightarrow> js_number" where
  "js_minus (Num a) (Num b) = Num (a - b)"
| "js_minus a b = NaN"

text \<open>\<open>dict_get d s\<close> is \<^verbatim>\<open>d[s]\<close>; \<open>dict_delete s d\<close> is \<^verbatim>\<open>delete d[s]\<close>, which does nothing
  for a name that is not an own property.\<close>

definition dict_get :: "(key \<times> 'a) list \<Rightarrow> string \<Rightarrow> 'a js_value" where
  "dict_get d s =
     (case key_of s of
        None \<Rightarrow> Inherited s
      | Some k \<Rightarrow> (case map_of d k of None \<Rightarrow> Undefined | Some v \<Rightarrow> Obj v))"

definition dict_delete :: "string \<Rightarrow> (key \<times> 'a) list \<Rightarrow> (key \<times> 'a) list" where
  "dict_delete s d = (case key_of s of None \<Rightarrow> d | Some k \<Rightarrow> AList.delete k d)"

subsection \<open>The data\<close>

record edge =
  e_ref :: nat
  e_fromId :: string
  e_toId :: string
  weight :: int

record node =
  n_id :: string
  outEdges :: "(key \<times> edge) list"
  inEdges :: "(key \<times> edge) list"
  edgeCount :: int

record graph =
  nodes :: "key \<rightharpoonup> node"
  nodeSize :: int
  edgeSize :: js_number
  nextRef :: nat

text \<open>
  \<open>OutsideModel\<close> marks a write that this model cannot hold: an own property under a name
  of \<^verbatim>\<open>Object.prototype\<close>. No operation reaches one (lemma \<open>never_OutsideModel\<close>).
\<close>

datatype js_error = TypeError | OutsideModel

type_synonym 'a outcome = "(js_error \<times> graph) + ('a \<times> graph)"

definition Graph_new :: graph where
  "Graph_new = \<lparr>nodes = Map.empty, nodeSize = 0, edgeSize = Num 0, nextRef = 0\<rparr>"

text \<open>\<open>get_node g s\<close> is \<^verbatim>\<open>this._nodes[s]\<close>.\<close>

definition get_node :: "graph \<Rightarrow> string \<Rightarrow> node js_value" where
  "get_node g s =
     (case key_of s of
        None \<Rightarrow> Inherited s
      | Some k \<Rightarrow> (case nodes g k of None \<Rightarrow> Undefined | Some n \<Rightarrow> Obj n))"

text \<open>
  For a variable \<^verbatim>\<open>v = this._nodes[s]\<close>: \<open>read_out g s t\<close> is \<^verbatim>\<open>v._outEdges[t]\<close> and
  \<open>read_in g s f\<close> is \<^verbatim>\<open>v._inEdges[f]\<close>. Both throw a \<^verbatim>\<open>TypeError\<close> (\<open>None\<close>) unless \<^verbatim>\<open>v\<close> is a
  node: \<^verbatim>\<open>undefined\<close> has no properties, and an inherited value has no \<^verbatim>\<open>_outEdges\<close>, so
  that the index is applied to \<^verbatim>\<open>undefined\<close>. \<open>modify_node g s f\<close> is a write
  \<^verbatim>\<open>v.field = ...\<close> or \<^verbatim>\<open>delete v.field[...]\<close> through the variable, with the same
  \<^verbatim>\<open>TypeError\<close>.
\<close>

definition read_out :: "graph \<Rightarrow> string \<Rightarrow> string \<Rightarrow> edge js_value option" where
  "read_out g s t =
     (case get_node g s of Obj n \<Rightarrow> Some (dict_get (outEdges n) t) | _ \<Rightarrow> None)"

definition read_in :: "graph \<Rightarrow> string \<Rightarrow> string \<Rightarrow> edge js_value option" where
  "read_in g s f =
     (case get_node g s of Obj n \<Rightarrow> Some (dict_get (inEdges n) f) | _ \<Rightarrow> None)"

definition modify_node :: "graph \<Rightarrow> string \<Rightarrow> (node \<Rightarrow> node) \<Rightarrow> graph option" where
  "modify_node g s f =
     (case key_of s of
        None \<Rightarrow> None
      | Some k \<Rightarrow>
          (case nodes g k of
             None \<Rightarrow> None
           | Some n \<Rightarrow> Some (g\<lparr>nodes := (nodes g)(k \<mapsto> f n)\<rparr>)))"

definition delete_out :: "graph \<Rightarrow> string \<Rightarrow> string \<Rightarrow> graph option" where
  "delete_out g s t = modify_node g s (\<lambda>n. n\<lparr>outEdges := dict_delete t (outEdges n)\<rparr>)"

definition delete_in :: "graph \<Rightarrow> string \<Rightarrow> string \<Rightarrow> graph option" where
  "delete_in g s f = modify_node g s (\<lambda>n. n\<lparr>inEdges := dict_delete f (inEdges n)\<rparr>)"

subsection \<open>addNode, getNode, removeNode\<close>

text \<open>
  \<^verbatim>\<open>addNode\<close> writes \<^verbatim>\<open>this._nodes[id]\<close> only after it read \<^verbatim>\<open>undefined\<close> there, which no
  name of \<^verbatim>\<open>Object.prototype\<close> gives.
\<close>

definition addNode :: "graph \<Rightarrow> string \<Rightarrow> node js_value outcome" where
  "addNode g ident =
     (if get_node g ident = Undefined then
        (case key_of ident of
           None \<Rightarrow> Inl (OutsideModel, g)
         | Some k \<Rightarrow>
             let g1 = g\<lparr>nodeSize := nodeSize g + 1\<rparr>;
                 n = \<lparr>n_id = ident, outEdges = [], inEdges = [], edgeCount = 0\<rparr>
             in Inr (Obj n, g1\<lparr>nodes := (nodes g1)(k \<mapsto> n)\<rparr>))
      else Inr (Undefined, g))"

definition getNode :: "graph \<Rightarrow> string \<Rightarrow> node js_value outcome" where
  "getNode g ident = Inr (get_node g ident, g)"

text \<open>
  \<^verbatim>\<open>this.edgeSize -= this._nodes[id]._edgeCount\<close>: the \<^verbatim>\<open>_edgeCount\<close> of an inherited value
  is \<^verbatim>\<open>undefined\<close>, and a number minus \<^verbatim>\<open>undefined\<close> is \<^verbatim>\<open>NaN\<close>. \<^verbatim>\<open>delete this._nodes[id]\<close>
  does nothing for a name that is not an own property.
\<close>

definition removeNode :: "graph \<Rightarrow> string \<Rightarrow> node js_value outcome" where
  "removeNode g ident =
     (let nodeToRemove = get_node g ident in
      if nodeToRemove = Undefined then Inr (Undefined, g)
      else
        (case get_node g ident of
           Undefined \<Rightarrow> Inl (TypeError, g)
         | v \<Rightarrow>
             let c = (case v of Obj n \<Rightarrow> Num (edgeCount n) | _ \<Rightarrow> NaN);
                 g1 = g\<lparr>edgeSize := js_minus (edgeSize g) c\<rparr>;
                 g2 = g1\<lparr>nodeSize := nodeSize g1 - 1\<rparr>;
                 g3 = (case key_of ident of
                         None \<Rightarrow> g2
                       | Some k \<Rightarrow> g2\<lparr>nodes := (nodes g2)(k := None)\<rparr>)
             in Inr (nodeToRemove, g3)))"

subsection \<open>getEdge\<close>

text \<open>
  The four branches of the source, in its order. A branch that falls off its end returns
  \<^verbatim>\<open>undefined\<close>. In the last branch the two conditions read \<^verbatim>\<open>fromNode._outEdges[toId]\<close>
  and \<^verbatim>\<open>toNode._inEdges[fromId]\<close>; whichever way \<^verbatim>\<open>&&\<close> short-circuits, both are read,
  the first one first, before a branch is taken and before anything is written.
\<close>

definition getEdge :: "graph \<Rightarrow> string \<Rightarrow> string \<Rightarrow> edge js_value outcome" where
  "getEdge g fromId toId =
     (let fromNode = get_node g fromId; toNode = get_node g toId in
      if fromNode = Undefined \<and> toNode = Undefined then Inr (Undefined, g)
      else if fromNode = Undefined then
        (case read_in g toId fromId of
           None \<Rightarrow> Inl (TypeError, g)
         | Some i \<Rightarrow>
             if i \<noteq> Undefined then
               (case delete_in g toId fromId of
                  None \<Rightarrow> Inl (TypeError, g)
                | Some g1 \<Rightarrow> Inr (Undefined, g1))
             else Inr (Undefined, g))
      else if toNode = Undefined then
        (case read_out g fromId toId of
           None \<Rightarrow> Inl (TypeError, g)
         | Some out \<Rightarrow>
             if out \<noteq> Undefined then
               (case delete_out g fromId toId of
                  None \<Rightarrow> Inl (TypeError, g)
                | Some g1 \<Rightarrow> Inr (Undefined, g1))
             else Inr (Undefined, g))
      else
        (case read_out g fromId toId of
           None \<Rightarrow> Inl (TypeError, g)
         | Some out \<Rightarrow>
            (case read_in g toId fromId of
               None \<Rightarrow> Inl (TypeError, g)
             | Some i \<Rightarrow>
                 if out = Undefined \<and> i \<noteq> Undefined then
                   (case delete_in g toId fromId of
                      None \<Rightarrow> Inl (TypeError, g)
                    | Some g1 \<Rightarrow> Inr (Undefined, g1))
                 else if i = Undefined \<and> out \<noteq> Undefined then
                   (case delete_out g fromId toId of
                      None \<Rightarrow> Inl (TypeError, g)
                    | Some g1 \<Rightarrow> Inr (Undefined, g1))
                 else Inr (out, g))))"

subsection \<open>addEdge, removeEdge\<close>

text \<open>
  \<^verbatim>\<open>weight == null\<close> holds for a missing argument (and for \<^verbatim>\<open>null\<close>): the argument is an
  option and \<open>None\<close> becomes 1. \<^verbatim>\<open>fromNode !== toNode\<close> compares two node objects; a node
  object lives under one name only, so it is \<open>fromId \<noteq> toId\<close>.

  \<open>assign_out g s t e\<close> is \<^verbatim>\<open>v._outEdges[t] = e\<close> for \<^verbatim>\<open>v = this._nodes[s]\<close>, \<open>assign_in\<close> is the
  same for \<^verbatim>\<open>_inEdges\<close>, and \<open>bump_edgeCount g s\<close> is \<^verbatim>\<open>v._edgeCount++\<close>.
\<close>

definition assign_out :: "graph \<Rightarrow> string \<Rightarrow> string \<Rightarrow> edge \<Rightarrow> (js_error \<times> graph) + graph" where
  "assign_out g s t e =
     (case get_node g s of
        Obj _ \<Rightarrow>
          (case key_of t of
             None \<Rightarrow> Inl (OutsideModel, g)
           | Some k \<Rightarrow>
               (case modify_node g s (\<lambda>n. n\<lparr>outEdges := AList.update k e (outEdges n)\<rparr>) of
                  None \<Rightarrow> Inl (TypeError, g)
                | Some g1 \<Rightarrow> Inr g1))
      | _ \<Rightarrow> Inl (TypeError, g))"

definition assign_in :: "graph \<Rightarrow> string \<Rightarrow> string \<Rightarrow> edge \<Rightarrow> (js_error \<times> graph) + graph" where
  "assign_in g s f e =
     (case get_node g s of
        Obj _ \<Rightarrow>
          (case key_of f of
             None \<Rightarrow> Inl (OutsideModel, g)
           | Some k \<Rightarrow>
               (case modify_node g s (\<lambda>n. n\<lparr>inEdges := AList.update k e (inEdges n)\<rparr>) of
                  None \<Rightarrow> Inl (TypeError, g)
                | Some g1 \<Rightarrow> Inr g1))
      | _ \<Rightarrow> Inl (TypeError, g))"

definition bump_edgeCount :: "graph \<Rightarrow> string \<Rightarrow> (js_error \<times> graph) + graph" where
  "bump_edgeCount g s =
     (case get_node g s of
        Undefined \<Rightarrow> Inl (TypeError, g)
      | Inherited _ \<Rightarrow> Inl (OutsideModel, g)
      | Obj _ \<Rightarrow>
          (case modify_node g s (\<lambda>n. n\<lparr>edgeCount := edgeCount n + 1\<rparr>) of
             None \<Rightarrow> Inl (TypeError, g)
           | Some g1 \<Rightarrow> Inr g1))"

definition addEdge ::
  "graph \<Rightarrow> string \<Rightarrow> string \<Rightarrow> int option \<Rightarrow> edge js_value outcome" where
  "addEdge g fromId toId weight0 =
     (let w = (case weight0 of None \<Rightarrow> 1 | Some x \<Rightarrow> x) in
      (case getEdge g fromId toId of
        Inl err \<Rightarrow> Inl err
      | Inr (existing, g1) \<Rightarrow>
          if existing \<noteq> Undefined then Inr (Undefined, g1)
          else
            let fromNode = get_node g1 fromId; toNode = get_node g1 toId in
            if fromNode = Undefined \<or> toNode = Undefined then Inr (Undefined, g1)
            else
              let edgeToAdd = \<lparr>e_ref = nextRef g1, e_fromId = fromId, e_toId = toId, weight = w\<rparr>;
                  g2 = g1\<lparr>nextRef := nextRef g1 + 1\<rparr>
              in
              (case assign_out g2 fromId toId edgeToAdd of
                 Inl err \<Rightarrow> Inl err
               | Inr g3 \<Rightarrow>
                  (case assign_in g3 toId fromId edgeToAdd of
                     Inl err \<Rightarrow> Inl err
                   | Inr g4 \<Rightarrow>
                      (case bump_edgeCount g4 fromId of
                         Inl err \<Rightarrow> Inl err
                       | Inr g5 \<Rightarrow>
                           let g6 = g5\<lparr>edgeSize := js_plus (edgeSize g5) (Num 1)\<rparr> in
                           if fromId \<noteq> toId then
                             (case bump_edgeCount g6 toId of
                                Inl err \<Rightarrow> Inl err
                              | Inr g7 \<Rightarrow> Inr (Obj edgeToAdd, g7))
                           else Inr (Obj edgeToAdd, g6))))))"

text \<open>
  \<^verbatim>\<open>removeEdge\<close> reads its two node variables before it calls \<^verbatim>\<open>getEdge\<close> and dereferences
  them after it, without a check of its own.
\<close>

definition removeEdge :: "graph \<Rightarrow> string \<Rightarrow> string \<Rightarrow> edge js_value outcome" where
  "removeEdge g fromId toId =
     (let fromNode = get_node g fromId; toNode = get_node g toId in
      (case getEdge g fromId toId of
        Inl err \<Rightarrow> Inl err
      | Inr (edgeToDelete, g1) \<Rightarrow>
          if edgeToDelete = Undefined then Inr (Undefined, g1)
          else
            (case fromNode of
               Obj _ \<Rightarrow>
                 (case delete_out g1 fromId toId of
                    None \<Rightarrow> Inl (TypeError, g1)
                  | Some g2 \<Rightarrow>
                      (case toNode of
                         Obj _ \<Rightarrow>
                           (case delete_in g2 toId fromId of
                              None \<Rightarrow> Inl (TypeError, g2)
                            | Some g3 \<Rightarrow>
                                Inr (edgeToDelete,
                                     g3\<lparr>edgeSize := js_minus (edgeSize g3) (Num 1)\<rparr>))
                       | _ \<Rightarrow> Inl (TypeError, g2)))
             | _ \<Rightarrow> Inl (TypeError, g1))))"

subsection \<open>getInEdgesOf, getOutEdgesOf, getAllEdgesOf\<close>

text \<open>
  The \<^verbatim>\<open>for ... in\<close> loops run over the keys the dictionary has when the loop starts. The
  only key of that dictionary a \<^verbatim>\<open>getEdge\<close> call of the body can delete is the key being
  visited, so no key that is still to come disappears under the loop. For an inherited
  value the loop runs over \<^verbatim>\<open>undefined\<close>, which has no keys.
\<close>

fun getInEdgesOf_loop ::
  "graph \<Rightarrow> string \<Rightarrow> string list \<Rightarrow> edge js_value list \<Rightarrow> edge js_value list outcome" where
  "getInEdgesOf_loop g nodeId [] acc = Inr (acc, g)"
| "getInEdgesOf_loop g nodeId (fromId # rest) acc =
     (case getEdge g fromId nodeId of
        Inl err \<Rightarrow> Inl err
      | Inr (edge, g1) \<Rightarrow>
          if edge \<noteq> Undefined then getInEdgesOf_loop g1 nodeId rest (acc @ [edge])
          else getInEdgesOf_loop g1 nodeId rest acc)"

definition getInEdgesOf :: "graph \<Rightarrow> string \<Rightarrow> edge js_value list outcome" where
  "getInEdgesOf g nodeId =
     (case get_node g nodeId of
        Undefined \<Rightarrow> Inr ([], g)
      | Inherited _ \<Rightarrow> Inr ([], g)
      | Obj toNode \<Rightarrow> getInEdgesOf_loop g nodeId (map (key_name \<circ> fst) (inEdges toNode)) [])"

fun getOutEdgesOf_loop ::
  "graph \<Rightarrow> string \<Rightarrow> string list \<Rightarrow> edge js_value list \<Rightarrow> edge js_value list outcome" where
  "getOutEdgesOf_loop g nodeId [] acc = Inr (acc, g)"
| "getOutEdgesOf_loop g nodeId (toId # rest) acc =
     (case getEdge g nodeId toId of
        Inl err \<Rightarrow> Inl err
      | Inr (edge, g1) \<Rightarrow>
          if edge \<noteq> Undefined then getOutEdgesOf_loop g1 nodeId rest (acc @ [edge])
          else getOutEdgesOf_loop g1 nodeId rest acc)"

definition getOutEdgesOf :: "graph \<Rightarrow> string \<Rightarrow> edge js_value list outcome" where
  "getOutEdgesOf g nodeId =
     (case get_node g nodeId of
        Undefined \<Rightarrow> Inr ([], g)
      | Inherited _ \<Rightarrow> Inr ([], g)
      | Obj fromNode \<Rightarrow> getOutEdgesOf_loop g nodeId (map (key_name \<circ> fst) (outEdges fromNode)) [])"

text \<open>
  The loop of \<^verbatim>\<open>getAllEdgesOf\<close>: \<^verbatim>\<open>i\<close> runs upwards from 0 to \<^verbatim>\<open>inEdges.length - 1\<close>; at the
  first \<^verbatim>\<open>i\<close> with \<^verbatim>\<open>inEdges[i] === selfEdge\<close> the entry is swapped with the last one, the
  array is popped and the loop ends. \<^verbatim>\<open>===\<close> on two objects is equality of references.
\<close>

definition strict_eq :: "edge js_value \<Rightarrow> edge js_value \<Rightarrow> bool" where
  "strict_eq a b =
     (case (a, b) of
        (Obj x, Obj y) \<Rightarrow> e_ref x = e_ref y
      | (Inherited p, Inherited q) \<Rightarrow> p = q
      | (Undefined, Undefined) \<Rightarrow> True
      | _ \<Rightarrow> False)"

function dropSelfEdge :: "edge js_value list \<Rightarrow> edge js_value \<Rightarrow> nat \<Rightarrow> edge js_value list" where
  "dropSelfEdge inE selfEdge i =
     (if i < length inE then
        if strict_eq (inE ! i) selfEdge then
          butlast (inE[i := inE ! (length inE - 1), length inE - 1 := inE ! i])
        else dropSelfEdge inE selfEdge (i + 1)
      else inE)"
  by pat_completeness auto
termination
  by (relation "measure (\<lambda>(inE, selfEdge, i). length inE - i)") auto

definition getAllEdgesOf :: "graph \<Rightarrow> string \<Rightarrow> edge js_value list outcome" where
  "getAllEdgesOf g nodeId =
     (case getInEdgesOf g nodeId of
        Inl err \<Rightarrow> Inl err
      | Inr (inE, g1) \<Rightarrow>
          (case getOutEdgesOf g1 nodeId of
             Inl err \<Rightarrow> Inl err
           | Inr (outE, g2) \<Rightarrow>
               if length inE = 0 then Inr (outE, g2)
               else
                 (case getEdge g2 nodeId nodeId of
                    Inl err \<Rightarrow> Inl err
                  | Inr (selfEdge, g3) \<Rightarrow>
                      if selfEdge \<noteq> Undefined
                      then Inr (dropSelfEdge inE selfEdge 0 @ outE, g3)
                      else Inr (inE @ outE, g3))))"

subsection \<open>Sequences of calls\<close>

datatype call =
    AddNode string
  | GetNode string
  | RemoveNode string
  | AddEdge string string "int option"
  | GetEdge string string
  | RemoveEdge string string
  | GetInEdgesOf string
  | GetOutEdgesOf string
  | GetAllEdgesOf string

fun state_of :: "'a outcome \<Rightarrow> (js_error \<times> graph) + graph" where
  "state_of (Inl err) = Inl err"
| "state_of (Inr (r, g)) = Inr g"

fun perform :: "graph \<Rightarrow> call \<Rightarrow> (js_error \<times> graph) + graph" where
  "perform g (AddNode k) = state_of (addNode g k)"
| "perform g (GetNode k) = state_of (getNode g k)"
| "perform g (RemoveNode k) = state_of (removeNode g k)"
| "perform g (AddEdge f t w) = state_of (addEdge g f t w)"
| "perform g (GetEdge f t) = state_of (getEdge g f t)"
| "perform g (RemoveEdge f t) = state_of (removeEdge g f t)"
| "perform g (GetInEdgesOf k) = state_of (getInEdgesOf g k)"
| "perform g (GetOutEdgesOf k) = state_of (getOutEdgesOf g k)"
| "perform g (GetAllEdgesOf k) = state_of (getAllEdgesOf g k)"

text \<open>A sequence of calls stops at the first call that throws.\<close>

fun run :: "graph \<Rightarrow> call list \<Rightarrow> (js_error \<times> graph) + graph" where
  "run g [] = Inr g"
| "run g (c # cs) = (case perform g c of Inl err \<Rightarrow> Inl err | Inr g1 \<Rightarrow> run g1 cs)"

subsection \<open>Slots and valid edges\<close>

fun to_value :: "'a option \<Rightarrow> 'a js_value" where
  "to_value None = Undefined"
| "to_value (Some v) = Obj v"


text \<open>
  The own properties, by key. The slot \<open>out_slot g f t\<close> is what \<^verbatim>\<open>_nodes[f]._outEdges[t]\<close>
  holds when \<open>f\<close> is a live node, and \<open>in_slot g t f\<close> is \<^verbatim>\<open>_nodes[t]._inEdges[f]\<close>. An edge
  from \<open>f\<close> to \<open>t\<close> is valid when both nodes are live and both slots are filled; the other
  filled slots are ghosts.
\<close>

definition out_slot :: "graph \<Rightarrow> key \<Rightarrow> key \<Rightarrow> edge option" where
  "out_slot g f t = (case nodes g f of None \<Rightarrow> None | Some n \<Rightarrow> map_of (outEdges n) t)"

definition in_slot :: "graph \<Rightarrow> key \<Rightarrow> key \<Rightarrow> edge option" where
  "in_slot g t f = (case nodes g t of None \<Rightarrow> None | Some n \<Rightarrow> map_of (inEdges n) f)"

definition valid_edge :: "graph \<Rightarrow> key \<Rightarrow> key \<Rightarrow> bool" where
  "valid_edge g f t \<longleftrightarrow>
     nodes g f \<noteq> None \<and> nodes g t \<noteq> None \<and> out_slot g f t \<noteq> None \<and> in_slot g t f \<noteq> None"

definition valid_edges :: "graph \<Rightarrow> (key \<times> key) set" where
  "valid_edges g = {(f, t). valid_edge g f t}"

definition edges_touching :: "graph \<Rightarrow> key \<Rightarrow> (key \<times> key) set" where
  "edges_touching g k = {(f, t). valid_edge g f t \<and> (f = k \<or> t = k)}"

definition out_keys :: "graph \<Rightarrow> key \<Rightarrow> key list" where
  "out_keys g k = (case nodes g k of None \<Rightarrow> [] | Some n \<Rightarrow> map fst (outEdges n))"

definition in_keys :: "graph \<Rightarrow> key \<Rightarrow> key list" where
  "in_keys g k = (case nodes g k of None \<Rightarrow> [] | Some n \<Rightarrow> map fst (inEdges n))"

text \<open>The state \<^verbatim>\<open>getEdge\<close> leaves: the one stale slot it looked at is gone.\<close>

definition drop_out :: "graph \<Rightarrow> key \<Rightarrow> key \<Rightarrow> graph" where
  "drop_out g f t =
     (case nodes g f of
        None \<Rightarrow> g
      | Some n \<Rightarrow> g\<lparr>nodes := (nodes g)(f \<mapsto> n\<lparr>outEdges := AList.delete t (outEdges n)\<rparr>)\<rparr>)"

definition drop_in :: "graph \<Rightarrow> key \<Rightarrow> key \<Rightarrow> graph" where
  "drop_in g t f =
     (case nodes g t of
        None \<Rightarrow> g
      | Some n \<Rightarrow> g\<lparr>nodes := (nodes g)(t \<mapsto> n\<lparr>inEdges := AList.delete f (inEdges n)\<rparr>)\<rparr>)"

definition purge :: "graph \<Rightarrow> key \<Rightarrow> key \<Rightarrow> graph" where
  "purge g f t =
     (if valid_edge g f t then g
      else if out_slot g f t \<noteq> None then drop_out g f t
      else if in_slot g t f \<noteq> None then drop_in g t f
      else g)"

text \<open>
  The state a successful \<^verbatim>\<open>addEdge\<close> builds from the state its \<^verbatim>\<open>getEdge\<close> call left.
\<close>

definition link :: "graph \<Rightarrow> key \<Rightarrow> key \<Rightarrow> edge \<Rightarrow> graph" where
  "link g f t e =
     (g\<lparr>nodes := (\<lambda>k.
           map_option (\<lambda>n. n\<lparr>outEdges := (if k = f then AList.update t e (outEdges n) else outEdges n),
                               inEdges := (if k = t then AList.update f e (inEdges n) else inEdges n),
                               edgeCount := (if k = f \<or> k = t then edgeCount n + 1 else edgeCount n)\<rparr>)
             (nodes g k)),
        edgeSize := js_plus (edgeSize g) (Num 1),
        nextRef := nextRef g + 1\<rparr>)"

text \<open>
  \<open>cleaned g g'\<close>: \<open>g'\<close> is \<open>g\<close> with some ghost slots deleted. The counters, the live nodes,
  the valid edges and their order of enumeration are those of \<open>g\<close>.
\<close>

definition cleaned :: "graph \<Rightarrow> graph \<Rightarrow> bool" where
  "cleaned g g' \<longleftrightarrow>
     nodeSize g' = nodeSize g \<and> edgeSize g' = edgeSize g \<and> nextRef g' = nextRef g \<and>
     (\<forall>k. (nodes g' k = None) = (nodes g k = None)) \<and>
     (\<forall>a b. valid_edge g' a b = valid_edge g a b) \<and>
     (\<forall>a b. valid_edge g a b \<longrightarrow> out_slot g' a b = out_slot g a b) \<and>
     (\<forall>a. filter (valid_edge g a) (out_keys g' a) = filter (valid_edge g a) (out_keys g a)) \<and>
     (\<forall>a. filter (\<lambda>f. valid_edge g f a) (in_keys g' a) = filter (\<lambda>f. valid_edge g f a) (in_keys g a)) \<and>
     (\<forall>a. distinct (out_keys g a) \<longrightarrow> distinct (out_keys g' a)) \<and>
     (\<forall>a. distinct (in_keys g a) \<longrightarrow> distinct (in_keys g' a))"

text \<open>
  What the two enumeration loops return over a list of keys, and the state they leave.
\<close>

definition valid_outs :: "graph \<Rightarrow> key \<Rightarrow> key list \<Rightarrow> edge list" where
  "valid_outs g k ks = map (\<lambda>t. the (out_slot g k t)) (filter (valid_edge g k) ks)"

definition valid_ins :: "graph \<Rightarrow> key \<Rightarrow> key list \<Rightarrow> edge list" where
  "valid_ins g k ks = map (\<lambda>f. the (out_slot g f k)) (filter (\<lambda>f. valid_edge g f k) ks)"

definition sweep_out :: "graph \<Rightarrow> key \<Rightarrow> key list \<Rightarrow> graph" where
  "sweep_out g k ks = fold (\<lambda>t g. purge g k t) ks g"

definition sweep_in :: "graph \<Rightarrow> key \<Rightarrow> key list \<Rightarrow> graph" where
  "sweep_in g k ks = fold (\<lambda>f g. purge g f k) ks g"

subsection \<open>Example states\<close>

text \<open>
  States of a graph over the nodes \<^verbatim>\<open>'A'\<close> and \<^verbatim>\<open>'B'\<close>, each reached from a new graph by the
  calls named in its \<open>_reached\<close> lemma.
\<close>

definition edge_AB :: edge where
  "edge_AB = \<lparr>e_ref = 0, e_fromId = ''A'', e_toId = ''B'', weight = 1\<rparr>"

definition graph_A :: graph where
  "graph_A =
     \<lparr>nodes = [Key ''A'' \<mapsto> \<lparr>n_id = ''A'', outEdges = [], inEdges = [], edgeCount = 0\<rparr>],
      nodeSize = 1, edgeSize = Num 0, nextRef = 0\<rparr>"

definition graph_A_B :: graph where
  "graph_A_B =
     \<lparr>nodes = [Key ''A'' \<mapsto> \<lparr>n_id = ''A'', outEdges = [], inEdges = [], edgeCount = 0\<rparr>,
               Key ''B'' \<mapsto> \<lparr>n_id = ''B'', outEdges = [], inEdges = [], edgeCount = 0\<rparr>],
      nodeSize = 2, edgeSize = Num 0, nextRef = 0\<rparr>"

definition graph_AB :: graph where
  "graph_AB =
     \<lparr>nodes = [Key ''A'' \<mapsto> \<lparr>n_id = ''A'', outEdges = [(Key ''B'', edge_AB)], inEdges = [], edgeCount = 1\<rparr>,
               Key ''B'' \<mapsto> \<lparr>n_id = ''B'', outEdges = [], inEdges = [(Key ''A'', edge_AB)], edgeCount = 1\<rparr>],
      nodeSize = 2, edgeSize = Num 1, nextRef = 1\<rparr>"

definition graph_ghost :: graph where
  "graph_ghost =
     \<lparr>nodes = [Key ''B'' \<mapsto> \<lparr>n_id = ''B'', outEdges = [], inEdges = [(Key ''A'', edge_AB)], edgeCount = 1\<rparr>],
      nodeSize = 1, edgeSize = Num 0, nextRef = 1\<rparr>"

definition edge_AA :: edge where
  "edge_AA = \<lparr>e_ref = 0, e_fromId = ''A'', e_toId = ''A'', weight = 1\<rparr>"

definition edge_AB1 :: edge where
  "edge_AB1 = \<lparr>e_ref = 1, e_fromId = ''A'', e_toId = ''B'', weight = 1\<rparr>"

definition graph_loop :: graph where
  "graph_loop =
     \<lparr>nodes = [Key ''A'' \<mapsto> \<lparr>n_id = ''A'', outEdges = [(Key ''A'', edge_AA), (Key ''B'', edge_AB1)],
                          inEdges = [(Key ''A'', edge_AA)], edgeCount = 2\<rparr>,
               Key ''B'' \<mapsto> \<lparr>n_id = ''B'', outEdges = [], inEdges = [(Key ''A'', edge_AB1)], edgeCount = 1\<rparr>],
      nodeSize = 2, edgeSize = Num 2, nextRef = 2\<rparr>"

text \<open>
  Reads of a stale slot, for the edge from \<open>A\<close> to \<open>B\<close>: \<^verbatim>\<open>getEdge(A, B)\<close>,
  \<^verbatim>\<open>getOutEdgesOf(B)\<close> and \<^verbatim>\<open>getInEdgesOf(B)\<close>. \<open>probe_all\<close> makes the calls of a list one
  after the other and records, for each, what it returned and the \<open>edgeSize\<close> it left.
\<close>

datatype probe = ProbeEdge | ProbeOut | ProbeIn

datatype answer = EdgeAnswer "edge js_value" | ListAnswer "edge js_value list"

fun probe_once :: "graph \<Rightarrow> string \<Rightarrow> string \<Rightarrow> probe \<Rightarrow> answer outcome" where
  "probe_once g A B ProbeEdge =
     (case getEdge g A B of Inl err \<Rightarrow> Inl err | Inr (r, g1) \<Rightarrow> Inr (EdgeAnswer r, g1))"
| "probe_once g A B ProbeOut =
     (case getOutEdgesOf g B of Inl err \<Rightarrow> Inl err | Inr (es, g1) \<Rightarrow> Inr (ListAnswer es, g1))"
| "probe_once g A B ProbeIn =
     (case getInEdgesOf g B of Inl err \<Rightarrow> Inl err | Inr (es, g1) \<Rightarrow> Inr (ListAnswer es, g1))"

fun probe_all ::
  "graph \<Rightarrow> string \<Rightarrow> string \<Rightarrow> probe list \<Rightarrow> (answer \<times> js_number) list outcome" where
  "probe_all g A B [] = Inr ([], g)"
| "probe_all g A B (p # ps) =
     (case probe_once g A B p of
        Inl err \<Rightarrow> Inl err
      | Inr (a, g1) \<Rightarrow>
          (case probe_all g1 A B ps of
             Inl err \<Rightarrow> Inl err
           | Inr (as, g2) \<Rightarrow> Inr ((a, edgeSize g1) # as, g2)))"

fun settled :: "graph \<Rightarrow> key \<Rightarrow> probe \<Rightarrow> answer" where
  "settled g B ProbeEdge = EdgeAnswer Undefined"
| "settled g B ProbeOut = ListAnswer (map Obj (valid_outs g B (out_keys g B)))"
| "settled g B ProbeIn = ListAnswer (map Obj (valid_ins g B (in_keys g B)))"

definition graph_unlinked :: graph where
  "graph_unlinked =
     \<lparr>nodes = [Key ''A'' \<mapsto> \<lparr>n_id = ''A'', outEdges = [], inEdges = [], edgeCount = 1\<rparr>,
               Key ''B'' \<mapsto> \<lparr>n_id = ''B'', outEdges = [], inEdges = [], edgeCount = 1\<rparr>],
      nodeSize = 2, edgeSize = Num 0, nextRef = 1\<rparr>"

section \<open>Properties\<close>

subsection \<open>Names and keys\<close>

lemma key_of_name [simp]: "key_of (key_name k) = Some k"
  using key_name[of k] by (simp add: key_of_def key_name_inverse)

lemma key_of_SomeD: "key_of s = Some k \<Longrightarrow> key_name k = s"
  by (auto simp: key_of_def Key_inverse split: if_splits)

lemma key_of_None: "(key_of s = None) = (s \<in> set proto_names)"
  by (simp add: key_of_def)

lemma key_of_inj: "key_of s = Some k \<Longrightarrow> key_of s' = Some k \<Longrightarrow> s = s'"
  using key_of_SomeD by metis

lemma to_value_Undefined [simp]: "(to_value x = Undefined) = (x = None)"
  by (cases x) simp_all

lemma to_value_Obj [simp]: "(to_value x = Obj v) = (x = Some v)"
  by (cases x) simp_all

lemma get_node_key [simp]: "key_of s = Some k \<Longrightarrow> get_node g s = to_value (nodes g k)"
  by (simp add: get_node_def split: option.splits)

lemma get_node_inherited [simp]: "key_of s = None \<Longrightarrow> get_node g s = Inherited s"
  by (simp add: get_node_def)

lemma get_node_Obj: "get_node g s = Obj n \<Longrightarrow> \<exists>k. key_of s = Some k \<and> nodes g k = Some n"
  by (auto simp: get_node_def split: option.splits)

lemma get_node_Undefined:
  "(get_node g s = Undefined) = (\<exists>k. key_of s = Some k \<and> nodes g k = None)"
  by (auto simp: get_node_def split: option.splits)

lemma dict_get_key [simp]: "key_of s = Some k \<Longrightarrow> dict_get d s = to_value (map_of d k)"
  by (simp add: dict_get_def split: option.splits)

lemma dict_delete_key [simp]: "key_of s = Some k \<Longrightarrow> dict_delete s d = AList.delete k d"
  by (simp add: dict_delete_def)

subsection \<open>getEdge\<close>

lemma getEdge_eq:
  assumes "key_of f = Some a" and "key_of t = Some b"
  shows "getEdge g f t = Inr (to_value (if valid_edge g a b then out_slot g a b else None), purge g a b)"
  using assms
  by (auto simp: getEdge_def purge_def valid_edge_def out_slot_def in_slot_def
      drop_out_def drop_in_def read_in_def read_out_def delete_in_def delete_out_def
      modify_node_def Let_def get_node_def split: option.splits)

lemma getEdge_throws:
  assumes "key_of f = None \<or> key_of t = None"
  shows "getEdge g f t = Inl (TypeError, g)"
  using assms
  by (auto simp: getEdge_def read_in_def read_out_def Let_def get_node_def
      split: option.splits js_value.splits)

subsection \<open>Ghost slots and their cleanup\<close>

lemma purge_sizes [simp]:
  "nodeSize (purge g f t) = nodeSize g"
  "edgeSize (purge g f t) = edgeSize g"
  "nextRef (purge g f t) = nextRef g"
  by (auto simp: purge_def drop_out_def drop_in_def split: option.splits)

lemma purge_live [simp]: "(nodes (purge g f t) k = None) = (nodes g k = None)"
  by (auto simp: purge_def drop_out_def drop_in_def split: option.splits)

lemma out_slot_purge:
  "out_slot (purge g f t) a b =
     (if a = f \<and> b = t \<and> \<not> valid_edge g f t then None else out_slot g a b)"
  by (auto simp: purge_def drop_out_def drop_in_def out_slot_def AList.delete_conv'
      split: option.splits)

lemma in_slot_purge:
  "in_slot (purge g f t) b a =
     (if a = f \<and> b = t \<and> \<not> valid_edge g f t then None else in_slot g b a)"
  by (auto simp: purge_def drop_out_def drop_in_def in_slot_def out_slot_def valid_edge_def AList.delete_conv'
      split: option.splits)

lemma valid_edge_purge [simp]: "valid_edge (purge g f t) a b = valid_edge g a b"
  unfolding valid_edge_def[of "purge g f t"] by (auto simp: out_slot_purge in_slot_purge valid_edge_def)

lemma out_keys_purge:
  "out_keys (purge g f t) a =
     (if a = f \<and> \<not> valid_edge g f t then removeAll t (out_keys g a) else out_keys g a)"
  by (auto simp: purge_def drop_out_def drop_in_def out_keys_def out_slot_def AList.delete_keys
      map_of_eq_None_iff[symmetric] split: option.splits)

lemma in_keys_purge:
  "in_keys (purge g f t) b =
     (if b = t \<and> \<not> valid_edge g f t then removeAll f (in_keys g b) else in_keys g b)"
  by (auto simp: purge_def drop_out_def drop_in_def in_keys_def in_slot_def out_slot_def valid_edge_def AList.delete_keys
      map_of_eq_None_iff[symmetric] split: option.splits)

lemma cleaned_refl [simp]: "cleaned g g"
  by (simp add: cleaned_def)

lemma cleaned_trans: "cleaned g g1 \<Longrightarrow> cleaned g1 g2 \<Longrightarrow> cleaned g g2"
proof -
  assume a: "cleaned g g1" and b: "cleaned g1 g2"
  have v: "valid_edge g1 = valid_edge g" using a by (simp add: cleaned_def fun_eq_iff)
  show ?thesis using a b unfolding cleaned_def v by simp
qed

lemma filter_removeAll_other:
  "\<not> P t \<Longrightarrow> filter P (removeAll t xs) = filter P xs"
  by (induction xs) auto

lemma cleaned_purge [simp]: "cleaned g (purge g f t)"
  unfolding cleaned_def
  by (auto simp: out_slot_purge out_keys_purge in_keys_purge filter_removeAll_other distinct_removeAll)

lemma cleaned_valid: "cleaned g g' \<Longrightarrow> valid_edge g' = valid_edge g"
  by (simp add: cleaned_def fun_eq_iff)

lemma cleaned_valid_outs:
  assumes "cleaned g g'"
  shows "valid_outs g' k ks = valid_outs g k ks"
proof -
  have v: "valid_edge g' = valid_edge g" by (rule cleaned_valid[OF assms])
  have s: "\<And>t. valid_edge g k t \<Longrightarrow> out_slot g' k t = out_slot g k t"
    using assms by (simp add: cleaned_def)
  show ?thesis unfolding valid_outs_def v by (rule map_cong) (simp_all add: s)
qed

lemma cleaned_valid_ins:
  assumes "cleaned g g'"
  shows "valid_ins g' k ks = valid_ins g k ks"
proof -
  have v: "valid_edge g' = valid_edge g" by (rule cleaned_valid[OF assms])
  have s: "\<And>f. valid_edge g f k \<Longrightarrow> out_slot g' f k = out_slot g f k"
    using assms by (simp add: cleaned_def)
  show ?thesis unfolding valid_ins_def v by (rule map_cong) (simp_all add: s)
qed

lemma cleaned_sweep_out [simp]: "cleaned g (sweep_out g k ks)"
  unfolding sweep_out_def
proof (induction ks arbitrary: g)
  case Nil
  show ?case by simp
next
  case (Cons t ks)
  show ?case using cleaned_trans[OF cleaned_purge Cons.IH] by simp
qed

lemma cleaned_sweep_in [simp]: "cleaned g (sweep_in g k ks)"
  unfolding sweep_in_def
proof (induction ks arbitrary: g)
  case Nil
  show ?case by simp
next
  case (Cons t ks)
  show ?case using cleaned_trans[OF cleaned_purge Cons.IH] by simp
qed

lemma valid_Some: "valid_edge g f t \<Longrightarrow> \<exists>e. out_slot g f t = Some e"
  by (auto simp: valid_edge_def)

lemma purge_valid: "valid_edge g f t \<Longrightarrow> purge g f t = g"
  by (simp add: purge_def)

lemma cleaned_out_result:
  assumes "cleaned g g'"
  shows "valid_outs g' k (out_keys g' k) = valid_outs g k (out_keys g k)"
proof -
  have f: "filter (valid_edge g k) (out_keys g' k) = filter (valid_edge g k) (out_keys g k)"
    using assms by (simp add: cleaned_def)
  have "valid_outs g' k (out_keys g' k) = valid_outs g k (out_keys g' k)"
    by (rule cleaned_valid_outs[OF assms])
  also have "\<dots> = valid_outs g k (out_keys g k)"
    unfolding valid_outs_def f ..
  finally show ?thesis .
qed

lemma cleaned_in_result:
  assumes "cleaned g g'"
  shows "valid_ins g' k (in_keys g' k) = valid_ins g k (in_keys g k)"
proof -
  have f: "filter (\<lambda>f. valid_edge g f k) (in_keys g' k) = filter (\<lambda>f. valid_edge g f k) (in_keys g k)"
    using assms by (simp add: cleaned_def)
  have "valid_ins g' k (in_keys g' k) = valid_ins g k (in_keys g' k)"
    by (rule cleaned_valid_ins[OF assms])
  also have "\<dots> = valid_ins g k (in_keys g k)"
    unfolding valid_ins_def f ..
  finally show ?thesis .
qed

lemma drop_fields [simp]:
  "nodeSize (drop_out g f t) = nodeSize g" "edgeSize (drop_out g f t) = edgeSize g"
  "nextRef (drop_out g f t) = nextRef g"
  "nodeSize (drop_in g t f) = nodeSize g" "edgeSize (drop_in g t f) = edgeSize g"
  "nextRef (drop_in g t f) = nextRef g"
  by (auto simp: drop_out_def drop_in_def split: option.splits)

lemma drop_edgeCount [simp]:
  "map_option edgeCount (nodes (drop_out g f t) k) = map_option edgeCount (nodes g k)"
  "map_option edgeCount (nodes (drop_in g t f) k) = map_option edgeCount (nodes g k)"
  by (auto simp: drop_out_def drop_in_def split: option.splits)

lemma link_fields [simp]:
  "nodeSize (link g f t e) = nodeSize g" "edgeSize (link g f t e) = js_plus (edgeSize g) (Num 1)"
  "nextRef (link g f t e) = nextRef g + 1"
  "(nodes (link g f t e) k = None) = (nodes g k = None)"
  by (simp_all add: link_def)

lemma out_slot_link:
  "nodes g f \<noteq> None \<Longrightarrow>
   out_slot (link g f t e) a b = (if a = f \<and> b = t then Some e else out_slot g a b)"
  by (auto simp: link_def out_slot_def AList.update_conv' split: option.splits)

lemma in_slot_link:
  "nodes g t \<noteq> None \<Longrightarrow>
   in_slot (link g f t e) b a = (if a = f \<and> b = t then Some e else in_slot g b a)"
  by (auto simp: link_def in_slot_def AList.update_conv' split: option.splits)

lemma valid_edge_link:
  "nodes g f \<noteq> None \<Longrightarrow> nodes g t \<noteq> None \<Longrightarrow>
   valid_edge (link g f t e) a b = (valid_edge g a b \<or> (a = f \<and> b = t))"
  unfolding valid_edge_def[of "link g f t e"]
  by (auto simp: out_slot_link in_slot_link valid_edge_def)

lemma filter_eq_single:
  "distinct xs \<Longrightarrow> k \<in> set xs \<Longrightarrow> filter (\<lambda>x. x = k) xs = [k]"
  by (induction xs) (auto simp: filter_empty_conv)

lemma filter_eq_pair:
  "distinct xs \<Longrightarrow> k \<in> set xs \<Longrightarrow> t \<in> set xs \<Longrightarrow> k \<noteq> t \<Longrightarrow>
   filter (\<lambda>x. x = k \<or> x = t) xs = [k, t] \<or> filter (\<lambda>x. x = k \<or> x = t) xs = [t, k]"
proof (induction xs)
  case Nil
  then show ?case by simp
next
  case (Cons a xs)
  show ?case
  proof (cases "a = k")
    case True
    then have "filter (\<lambda>x. x = k \<or> x = t) xs = filter (\<lambda>x. x = t) xs"
      using Cons.prems by (intro filter_cong) auto
    moreover have "filter (\<lambda>x. x = t) xs = [t]"
      using Cons.prems True by (intro filter_eq_single) auto
    ultimately show ?thesis using True by simp
  next
    case False
    show ?thesis
    proof (cases "a = t")
      case True
      then have "filter (\<lambda>x. x = k \<or> x = t) xs = filter (\<lambda>x. x = k) xs"
        using Cons.prems by (intro filter_cong) auto
      moreover have "filter (\<lambda>x. x = k) xs = [k]"
        using Cons.prems True by (intro filter_eq_single) auto
      ultimately show ?thesis using True by simp
    next
      case f2: False
      show ?thesis using False f2 Cons by auto
    qed
  qed
qed

lemma out_slot_key: "out_slot g k t \<noteq> None \<Longrightarrow> t \<in> set (out_keys g k)"
  by (auto simp: out_slot_def out_keys_def split: option.splits dest: map_of_SomeD intro: rev_image_eqI)

lemma in_slot_key: "in_slot g k f \<noteq> None \<Longrightarrow> f \<in> set (in_keys g k)"
  by (auto simp: in_slot_def in_keys_def split: option.splits dest: map_of_SomeD intro: rev_image_eqI)

lemma valid_outs_mem:
  "x \<in> set (valid_outs g B ks) \<Longrightarrow> \<exists>t. valid_edge g B t \<and> out_slot g B t = Some x"
  using valid_Some by (fastforce simp: valid_outs_def)

lemma valid_ins_mem:
  "x \<in> set (valid_ins g B ks) \<Longrightarrow> \<exists>f. valid_edge g f B \<and> out_slot g f B = Some x"
  using valid_Some by (fastforce simp: valid_ins_def)

subsection \<open>The operations on names that are keys, and on inherited names\<close>

lemma addEdge_throws:
  assumes "key_of f = None \<or> key_of t = None"
  shows "addEdge g f t w = Inl (TypeError, g)"
  by (simp add: addEdge_def getEdge_throws[OF assms])

lemma addEdge_reject:
  assumes "key_of f = Some a" and "key_of t = Some b"
    and "valid_edge g a b \<or> nodes g a = None \<or> nodes g b = None"
  shows "addEdge g f t w = Inr (Undefined, purge g a b)"
  using assms
  by (auto simp: addEdge_def getEdge_eq Let_def valid_edge_def)

lemma addEdge_accept:
  assumes "key_of f = Some a" and "key_of t = Some b"
    and "\<not> valid_edge g a b" and "nodes g a \<noteq> None" and "nodes g b \<noteq> None"
  shows "addEdge g f t w =
     Inr (Obj \<lparr>e_ref = nextRef g, e_fromId = f, e_toId = t,
                 weight = (case w of None \<Rightarrow> 1 | Some x \<Rightarrow> x)\<rparr>,
          link (purge g a b) a b \<lparr>e_ref = nextRef g, e_fromId = f, e_toId = t,
                 weight = (case w of None \<Rightarrow> 1 | Some x \<Rightarrow> x)\<rparr>)"
proof -
  obtain nf nt where n: "nodes (purge g a b) a = Some nf" "nodes (purge g a b) b = Some nt"
    using assms(4,5) purge_live[of g a b a] purge_live[of g a b b] by (metis option.exhaust)
  have ne: "(f = t) = (a = b)"
    using assms(1,2) key_of_inj by auto
  show ?thesis
    using assms n ne
    by (auto simp: addEdge_def getEdge_eq Let_def assign_out_def assign_in_def bump_edgeCount_def
        modify_node_def link_def fun_eq_iff option.map_ident
        intro!: graph.equality node.equality)
qed

lemma removeEdge_throws:
  assumes "key_of f = None \<or> key_of t = None"
  shows "removeEdge g f t = Inl (TypeError, g)"
  by (simp add: removeEdge_def getEdge_throws[OF assms] Let_def)

lemma removeEdge_eq:
  assumes "key_of f = Some a" and "key_of t = Some b"
  shows "removeEdge g f t =
     (if valid_edge g a b
      then Inr (to_value (out_slot g a b),
                (drop_in (drop_out g a b) b a)\<lparr>edgeSize := js_minus (edgeSize g) (Num 1)\<rparr>)
      else Inr (Undefined, purge g a b))"
  using assms
  by (auto simp: removeEdge_def getEdge_eq Let_def valid_edge_def purge_def delete_out_def
      delete_in_def modify_node_def drop_out_def drop_in_def out_slot_def in_slot_def
      split: option.splits)

lemma valid_outs_Cons:
  "valid_outs g k (t # ks) =
     (if valid_edge g k t then the (out_slot g k t) # valid_outs g k ks else valid_outs g k ks)"
  by (simp add: valid_outs_def)

lemma valid_ins_Cons:
  "valid_ins g k (f # ks) =
     (if valid_edge g f k then the (out_slot g f k) # valid_ins g k ks else valid_ins g k ks)"
  by (simp add: valid_ins_def)

lemma sweep_Cons:
  "sweep_out g k (t # ks) = sweep_out (purge g k t) k ks"
  "sweep_in g k (f # ks) = sweep_in (purge g f k) k ks"
  by (simp_all add: sweep_out_def sweep_in_def)

lemma getOutEdgesOf_loop_eq:
  "getOutEdgesOf_loop g (key_name k) (map key_name ks) acc
     = Inr (acc @ map Obj (valid_outs g k ks), sweep_out g k ks)"
proof (induction ks arbitrary: g acc)
  case Nil
  show ?case by (simp add: valid_outs_def sweep_out_def)
next
  case (Cons t ks)
  have c: "valid_outs (purge g k t) k ks = valid_outs g k ks"
    by (rule cleaned_valid_outs) simp
  show ?case
  proof (cases "valid_edge g k t")
    case True
    then obtain e where e: "out_slot g k t = Some e" using valid_Some by blast
    show ?thesis using True e Cons.IH[of g "acc @ [Obj e]"]
      by (simp add: getEdge_eq purge_valid valid_outs_Cons sweep_Cons)
  next
    case False
    show ?thesis using False Cons.IH[of "purge g k t" acc] c
      by (simp add: getEdge_eq valid_outs_Cons sweep_Cons)
  qed
qed

lemma getInEdgesOf_loop_eq:
  "getInEdgesOf_loop g (key_name k) (map key_name ks) acc
     = Inr (acc @ map Obj (valid_ins g k ks), sweep_in g k ks)"
proof (induction ks arbitrary: g acc)
  case Nil
  show ?case by (simp add: valid_ins_def sweep_in_def)
next
  case (Cons f ks)
  have c: "valid_ins (purge g f k) k ks = valid_ins g k ks"
    by (rule cleaned_valid_ins) simp
  show ?case
  proof (cases "valid_edge g f k")
    case True
    then obtain e where e: "out_slot g f k = Some e" using valid_Some by blast
    show ?thesis using True e Cons.IH[of g "acc @ [Obj e]"]
      by (simp add: getEdge_eq purge_valid valid_ins_Cons sweep_Cons)
  next
    case False
    show ?thesis using False Cons.IH[of "purge g f k" acc] c
      by (simp add: getEdge_eq valid_ins_Cons sweep_Cons)
  qed
qed

lemma getOutEdgesOf_eq:
  assumes "key_of s = Some k"
  shows "getOutEdgesOf g s
     = Inr (map Obj (valid_outs g k (out_keys g k)), sweep_out g k (out_keys g k))"
proof (cases "nodes g k")
  case None
  then show ?thesis using assms
    by (simp add: getOutEdgesOf_def out_keys_def valid_outs_def sweep_out_def)
next
  case (Some n)
  have s: "s = key_name k" using key_of_SomeD[OF assms] by simp
  have m: "map (key_name \<circ> fst) (outEdges n) = map key_name (out_keys g k)"
    using Some by (simp add: out_keys_def)
  show ?thesis using assms Some
    unfolding getOutEdgesOf_def
    by (simp add: m) (simp add: s getOutEdgesOf_loop_eq)
qed

lemma getInEdgesOf_eq:
  assumes "key_of s = Some k"
  shows "getInEdgesOf g s
     = Inr (map Obj (valid_ins g k (in_keys g k)), sweep_in g k (in_keys g k))"
proof (cases "nodes g k")
  case None
  then show ?thesis using assms
    by (simp add: getInEdgesOf_def in_keys_def valid_ins_def sweep_in_def)
next
  case (Some n)
  have s: "s = key_name k" using key_of_SomeD[OF assms] by simp
  have m: "map (key_name \<circ> fst) (inEdges n) = map key_name (in_keys g k)"
    using Some by (simp add: in_keys_def)
  show ?thesis using assms Some
    unfolding getInEdgesOf_def
    by (simp add: m) (simp add: s getInEdgesOf_loop_eq)
qed

lemma getOutEdgesOf_inherited: "key_of s = None \<Longrightarrow> getOutEdgesOf g s = Inr ([], g)"
  by (simp add: getOutEdgesOf_def)

lemma getInEdgesOf_inherited: "key_of s = None \<Longrightarrow> getInEdgesOf g s = Inr ([], g)"
  by (simp add: getInEdgesOf_def)

lemma getAllEdgesOf_inherited: "key_of s = None \<Longrightarrow> getAllEdgesOf g s = Inr ([], g)"
  by (simp add: getAllEdgesOf_def getInEdgesOf_inherited getOutEdgesOf_inherited)

lemma getAllEdgesOf_returns:
  "\<exists>es g'. getAllEdgesOf g s = Inr (es, g')"
proof (cases "key_of s")
  case None
  then show ?thesis by (simp add: getAllEdgesOf_inherited)
next
  case (Some k)
  then show ?thesis
    by (simp add: getAllEdgesOf_def getInEdgesOf_eq getOutEdgesOf_eq getEdge_eq)
qed

lemma removeEdge_Obj_valid:
  assumes "removeEdge g f t = Inr (Obj e, g')"
  shows "\<exists>a b. key_of f = Some a \<and> key_of t = Some b \<and> valid_edge g a b"
proof -
  have "\<not> (key_of f = None \<or> key_of t = None)"
  proof
    assume "key_of f = None \<or> key_of t = None"
    from removeEdge_throws[OF this, of g] assms show False by simp
  qed
  then obtain a b where k: "key_of f = Some a" "key_of t = Some b" by auto
  then show ?thesis using assms by (auto simp: removeEdge_eq split: if_splits)
qed

text \<open>No operation writes an own property under a name of the prototype.\<close>

lemma never_OutsideModel:
  "addNode g s \<noteq> Inl (OutsideModel, g')"
  "getNode g s \<noteq> Inl (OutsideModel, g')"
  "removeNode g s \<noteq> Inl (OutsideModel, g')"
  "addEdge g f t w \<noteq> Inl (OutsideModel, g')"
  "getEdge g f t \<noteq> Inl (OutsideModel, g')"
  "removeEdge g f t \<noteq> Inl (OutsideModel, g')"
  "getInEdgesOf g s \<noteq> Inl (OutsideModel, g')"
  "getOutEdgesOf g s \<noteq> Inl (OutsideModel, g')"
  "getAllEdgesOf g s \<noteq> Inl (OutsideModel, g')"
proof -
  show "addNode g s \<noteq> Inl (OutsideModel, g')"
    by (auto simp: addNode_def get_node_def Let_def split: option.splits)
  show "getNode g s \<noteq> Inl (OutsideModel, g')" by (simp add: getNode_def)
  show "removeNode g s \<noteq> Inl (OutsideModel, g')"
    by (auto simp: removeNode_def Let_def split: js_value.splits option.splits)
  show "getEdge g f t \<noteq> Inl (OutsideModel, g')"
    using getEdge_throws[of f t g] getEdge_eq[of f _ t _ g] by (cases "key_of f"; cases "key_of t") auto
  show "addEdge g f t w \<noteq> Inl (OutsideModel, g')"
  proof (cases "key_of f"; cases "key_of t")
    fix a b assume k: "key_of f = Some a" "key_of t = Some b"
    show ?thesis
      using addEdge_reject[OF k, of g w] addEdge_accept[OF k, of g w] by (cases "valid_edge g a b \<or> nodes g a = None \<or> nodes g b = None") auto
  qed (simp_all add: addEdge_throws)
  show "removeEdge g f t \<noteq> Inl (OutsideModel, g')"
    using removeEdge_throws[of f t g] removeEdge_eq[of f _ t _ g] by (cases "key_of f"; cases "key_of t") auto
  show "getInEdgesOf g s \<noteq> Inl (OutsideModel, g')"
    using getInEdgesOf_inherited[of s g] getInEdgesOf_eq[of s _ g] by (cases "key_of s") auto
  show "getOutEdgesOf g s \<noteq> Inl (OutsideModel, g')"
    using getOutEdgesOf_inherited[of s g] getOutEdgesOf_eq[of s _ g] by (cases "key_of s") auto
  show "getAllEdgesOf g s \<noteq> Inl (OutsideModel, g')"
    using getAllEdgesOf_returns[of g s] by auto
qed

subsection \<open>The example states are reached\<close>

lemmas graph_defs = Graph_new_def addNode_def getNode_def removeNode_def getEdge_def addEdge_def
  removeEdge_def getInEdgesOf_def getOutEdgesOf_def getAllEdgesOf_def modify_node_def read_in_def
  read_out_def delete_in_def delete_out_def assign_out_def assign_in_def bump_edgeCount_def
  get_node_def dict_get_def dict_delete_def Let_def

lemmas name_defs = key_of_def proto_names_def Key_inverse Key_inject

lemmas slot_defs = valid_edge_def out_slot_def in_slot_def out_keys_def in_keys_def
  drop_out_def drop_in_def

lemma graph_A_reached: "run Graph_new [AddNode ''A''] = Inr graph_A"
  by (simp add: graph_defs name_defs graph_A_def)

lemma graph_A_B_reached: "run Graph_new [AddNode ''A'', AddNode ''B''] = Inr graph_A_B"
  by (simp add: graph_defs name_defs graph_A_B_def)

lemma graph_AB_reached:
  "run Graph_new [AddNode ''A'', AddNode ''B'', AddEdge ''A'' ''B'' None] = Inr graph_AB"
  by (auto simp: graph_defs name_defs graph_AB_def edge_AB_def fun_eq_iff)

lemma graph_ghost_reached:
  "run Graph_new [AddNode ''A'', AddNode ''B'', AddEdge ''A'' ''B'' None, RemoveNode ''A'']
     = Inr graph_ghost"
  by (auto simp: graph_defs name_defs graph_ghost_def edge_AB_def fun_eq_iff)

lemma graph_loop_reached:
  "run Graph_new [AddNode ''A'', AddNode ''B'', AddEdge ''A'' ''A'' None, AddEdge ''A'' ''B'' None]
     = Inr graph_loop"
  by (auto simp: graph_defs name_defs graph_loop_def edge_AA_def edge_AB1_def fun_eq_iff)

lemma graph_unlinked_reached:
  "run Graph_new [AddNode ''A'', AddNode ''B'', AddEdge ''A'' ''B'' None, RemoveEdge ''A'' ''B'']
     = Inr graph_unlinked"
  by (auto simp: graph_defs name_defs graph_unlinked_def fun_eq_iff)

lemma key_A_B [simp]:
  "key_of ''A'' = Some (Key ''A'')" "key_of ''B'' = Some (Key ''B'')" "Key ''A'' \<noteq> Key ''B''"
  "Key ''B'' \<noteq> Key ''A''"
  by (simp_all add: name_defs)

lemma addEdge_graph_A_B:
  "addEdge graph_A_B ''A'' ''B'' None = Inr (Obj edge_AB, graph_AB)"
  by (auto simp: graph_defs name_defs graph_A_B_def graph_AB_def edge_AB_def fun_eq_iff)

lemma removeNode_graph_AB:
  "removeNode graph_AB ''A'' =
     Inr (Obj \<lparr>n_id = ''A'', outEdges = [(Key ''B'', edge_AB)], inEdges = [], edgeCount = 1\<rparr>,
          graph_ghost)"
  by (auto simp: graph_defs name_defs graph_AB_def graph_ghost_def fun_eq_iff)

subsection \<open>What holds for names that are keys\<close>

lemma addNode_key:
  assumes "key_of ident = Some k"
  shows "(nodes g k = None \<longrightarrow>
            (\<exists>n g'. addNode g ident = Inr (Obj n, g') \<and> getNode g' ident = Inr (Obj n, g') \<and>
                     nodeSize g' = nodeSize g + 1)) \<and>
         (nodes g k \<noteq> None \<longrightarrow> addNode g ident = Inr (Undefined, g))"
  using assms by (simp add: addNode_def getNode_def Let_def)

lemma addEdge_key:
  assumes k: "key_of fromId = Some f" "key_of toId = Some t"
  shows
  "(valid_edge g f t \<or> nodes g f = None \<or> nodes g t = None \<longrightarrow>
      (\<exists>g'. addEdge g fromId toId w = Inr (Undefined, g') \<and> edgeSize g' = edgeSize g \<and>
         (\<forall>a b. valid_edge g' a b = valid_edge g a b) \<and>
         (\<forall>a b. out_slot g' a b = None \<or> out_slot g' a b = out_slot g a b) \<and>
         (\<forall>a b. in_slot g' a b = None \<or> in_slot g' a b = in_slot g a b))) \<and>
   (\<not> (valid_edge g f t \<or> nodes g f = None \<or> nodes g t = None) \<longrightarrow>
      (\<exists>e g'. addEdge g fromId toId w = Inr (Obj e, g') \<and>
         weight e = (case w of None \<Rightarrow> 1 | Some x \<Rightarrow> x) \<and>
         e_fromId e = fromId \<and> e_toId e = toId \<and> e_ref e = nextRef g \<and>
         out_slot g' f t = Some e \<and> in_slot g' t f = Some e \<and>
         (\<forall>a b. valid_edge g' a b = (valid_edge g a b \<or> (a = f \<and> b = t))) \<and>
         edgeSize g' = js_plus (edgeSize g) (Num 1)))"
proof (intro conjI impI)
  assume r: "valid_edge g f t \<or> nodes g f = None \<or> nodes g t = None"
  show "\<exists>g'. addEdge g fromId toId w = Inr (Undefined, g') \<and> edgeSize g' = edgeSize g \<and>
         (\<forall>a b. valid_edge g' a b = valid_edge g a b) \<and>
         (\<forall>a b. out_slot g' a b = None \<or> out_slot g' a b = out_slot g a b) \<and>
         (\<forall>a b. in_slot g' a b = None \<or> in_slot g' a b = in_slot g a b)"
    unfolding addEdge_reject[OF k r] by (simp add: out_slot_purge in_slot_purge)
next
  assume "\<not> (valid_edge g f t \<or> nodes g f = None \<or> nodes g t = None)"
  then have a: "\<not> valid_edge g f t" "nodes g f \<noteq> None" "nodes g t \<noteq> None"
    by simp_all
  have l: "nodes (purge g f t) f \<noteq> None" "nodes (purge g f t) t \<noteq> None"
    using a by simp_all
  show "\<exists>e g'. addEdge g fromId toId w = Inr (Obj e, g') \<and>
         weight e = (case w of None \<Rightarrow> 1 | Some x \<Rightarrow> x) \<and>
         e_fromId e = fromId \<and> e_toId e = toId \<and> e_ref e = nextRef g \<and>
         out_slot g' f t = Some e \<and> in_slot g' t f = Some e \<and>
         (\<forall>a b. valid_edge g' a b = (valid_edge g a b \<or> (a = f \<and> b = t))) \<and>
         edgeSize g' = js_plus (edgeSize g) (Num 1)"
    unfolding addEdge_accept[OF k a]
    by (simp add: out_slot_link[OF l(1)] in_slot_link[OF l(2)] valid_edge_link[OF l])
qed

lemma removeNode_key:
  assumes "key_of ident = Some k" and "nodes g k = Some n"
  shows "\<exists>g'. removeNode g ident = Inr (Obj n, g') \<and> nodeSize g' = nodeSize g - 1 \<and>
           edgeSize g' = js_minus (edgeSize g) (Num (edgeCount n)) \<and> nodes g' k = None \<and>
           (\<forall>x. (\<exists>g1. getEdge g' ident x = Inr (Undefined, g1) \<or> getEdge g' ident x = Inl (TypeError, g1)) \<and>
                (\<exists>g1. getEdge g' x ident = Inr (Undefined, g1) \<or> getEdge g' x ident = Inl (TypeError, g1)))"
proof -
  let ?g' = "g\<lparr>edgeSize := js_minus (edgeSize g) (Num (edgeCount n)), nodeSize := nodeSize g - 1,
               nodes := (nodes g)(k := None)\<rparr>"
  have r: "removeNode g ident = Inr (Obj n, ?g')"
    using assms by (simp add: removeNode_def Let_def)
  have d: "nodes ?g' k = None" by simp
  have "\<And>x. (\<exists>g1. getEdge ?g' ident x = Inr (Undefined, g1) \<or> getEdge ?g' ident x = Inl (TypeError, g1)) \<and>
            (\<exists>g1. getEdge ?g' x ident = Inr (Undefined, g1) \<or> getEdge ?g' x ident = Inl (TypeError, g1))"
  proof -
    fix x
    show "(\<exists>g1. getEdge ?g' ident x = Inr (Undefined, g1) \<or> getEdge ?g' ident x = Inl (TypeError, g1)) \<and>
            (\<exists>g1. getEdge ?g' x ident = Inr (Undefined, g1) \<or> getEdge ?g' x ident = Inl (TypeError, g1))"
    proof (cases "key_of x")
      case None
      then show ?thesis by (simp add: getEdge_throws)
    next
      case (Some y)
      have "\<not> valid_edge ?g' k y" "\<not> valid_edge ?g' y k" using d by (simp_all add: valid_edge_def)
      then show ?thesis using assms(1) Some by (simp add: getEdge_eq)
    qed
  qed
  with r show ?thesis by auto
qed

lemma operations_return_on_keys:
  assumes "key_of s = Some k" and "key_of fromId = Some f" and "key_of toId = Some t"
  shows "(\<exists>r g'. addNode g s = Inr (r, g')) \<and>
   (\<exists>r g'. getNode g s = Inr (r, g')) \<and>
   (\<exists>r g'. removeNode g s = Inr (r, g')) \<and>
   (\<exists>r g'. addEdge g fromId toId w = Inr (r, g')) \<and>
   (\<exists>r g'. getEdge g fromId toId = Inr (r, g')) \<and>
   (\<exists>r g'. removeEdge g fromId toId = Inr (r, g')) \<and>
   (\<exists>es g'. getInEdgesOf g s = Inr (es, g')) \<and>
   (\<exists>es g'. getOutEdgesOf g s = Inr (es, g')) \<and>
   (\<exists>es g'. getAllEdgesOf g s = Inr (es, g'))"
proof -
  have 1: "\<exists>r g'. addNode g s = Inr (r, g')" using assms(1) by (simp add: addNode_def Let_def)
  have 2: "\<exists>r g'. getNode g s = Inr (r, g')" by (simp add: getNode_def)
  have 3: "\<exists>r g'. removeNode g s = Inr (r, g')"
    using assms(1) by (cases "nodes g k") (simp_all add: removeNode_def Let_def)
  have 4: "\<exists>r g'. addEdge g fromId toId w = Inr (r, g')"
    using addEdge_reject[OF assms(2,3), of g w] addEdge_accept[OF assms(2,3), of g w] by blast
  have 5: "\<exists>r g'. getEdge g fromId toId = Inr (r, g')" by (simp add: getEdge_eq[OF assms(2,3)])
  have 6: "\<exists>r g'. removeEdge g fromId toId = Inr (r, g')" by (simp add: removeEdge_eq[OF assms(2,3)])
  have 7: "\<exists>es g'. getInEdgesOf g s = Inr (es, g')" by (simp add: getInEdgesOf_eq[OF assms(1)])
  have 8: "\<exists>es g'. getOutEdgesOf g s = Inr (es, g')" by (simp add: getOutEdgesOf_eq[OF assms(1)])
  show ?thesis using 1 2 3 4 5 6 7 8 getAllEdgesOf_returns[of g s] by blast
qed

lemma dropSelfEdge_single: "dropSelfEdge [Obj s] (Obj s) 0 = []"
  by (subst dropSelfEdge.simps) (simp add: strict_eq_def)

lemma probe_once_cleaned:
  assumes "key_of A = Some a" and "key_of B = Some b" and "nodes g a = None" and "cleaned g gi"
  shows "\<exists>g1. probe_once gi A B p = Inr (settled g b p, g1) \<and> cleaned g g1"
proof (cases p)
  case ProbeEdge
  have "\<not> valid_edge g a b" using assms(3) by (simp add: valid_edge_def)
  then have "\<not> valid_edge gi a b" using cleaned_valid[OF assms(4)] by simp
  moreover have "cleaned g (purge gi a b)" by (rule cleaned_trans[OF assms(4)]) simp
  ultimately show ?thesis using ProbeEdge by (simp add: getEdge_eq[OF assms(1,2)])
next
  case ProbeOut
  have "cleaned g (sweep_out gi b (out_keys gi b))" by (rule cleaned_trans[OF assms(4)]) simp
  then show ?thesis using ProbeOut
    by (simp add: getOutEdgesOf_eq[OF assms(2)] cleaned_out_result[OF assms(4)])
next
  case ProbeIn
  have "cleaned g (sweep_in gi b (in_keys gi b))" by (rule cleaned_trans[OF assms(4)]) simp
  then show ?thesis using ProbeIn
    by (simp add: getInEdgesOf_eq[OF assms(2)] cleaned_in_result[OF assms(4)])
qed

lemma probe_all_cleaned:
  assumes "key_of A = Some a" and "key_of B = Some b" and "nodes g a = None"
  shows "cleaned g gi \<Longrightarrow>
    \<exists>g'. probe_all gi A B ps = Inr (map (\<lambda>p. (settled g b p, edgeSize g)) ps, g')"
proof (induction ps arbitrary: gi)
  case Nil
  show ?case by simp
next
  case (Cons p ps)
  obtain g1 where 1: "probe_once gi A B p = Inr (settled g b p, g1)" and c: "cleaned g g1"
    using probe_once_cleaned[OF assms Cons.prems] by blast
  obtain g' where 2: "probe_all g1 A B ps = Inr (map (\<lambda>p. (settled g b p, edgeSize g)) ps, g')"
    using Cons.IH[OF c] by blast
  have "edgeSize g1 = edgeSize g" using c by (simp add: cleaned_def)
  then show ?case using 1 2 by simp
qed

lemma removeNode_dead:
  "key_of A = Some a \<Longrightarrow> removeNode g0 A = Inr (r, g) \<Longrightarrow> nodes g a = None"
  by (auto simp: removeNode_def Let_def split: option.splits if_splits js_value.splits)

section \<open>The claims\<close>

text \<open>
  Claim C1 does not hold of the code. \<open>_edgeCount\<close> is only ever incremented: \<^verbatim>\<open>removeEdge\<close>
  leaves it, and removing a node leaves the count of its neighbours. A later
  \<^verbatim>\<open>removeNode\<close> then subtracts edges from \<open>edgeSize\<close> that were subtracted before. From a new
  graph, two nodes, one edge and the removal of both nodes give \<open>edgeSize = -1\<close> in a graph
  with no node; so do one edge added, removed again, and the removal of its tail.
\<close>

theorem edgeSize_drifts:
  "(\<exists>g. run Graph_new [AddNode ''A'', AddNode ''B'', AddEdge ''A'' ''B'' None,
                        RemoveNode ''A'', RemoveNode ''B''] = Inr g \<and>
        edgeSize g = Num (- 1) \<and> nodeSize g = 0 \<and> valid_edges g = {} \<and>
        edgeSize g \<noteq> Num (int (card (valid_edges g)))) \<and>
   (\<exists>g. run Graph_new [AddNode ''A'', AddNode ''B'', AddEdge ''A'' ''B'' None,
                        RemoveEdge ''A'' ''B'', RemoveNode ''A''] = Inr g \<and>
        edgeSize g = Num (- 1) \<and> nodeSize g = 1 \<and> valid_edges g = {} \<and>
        edgeSize g \<noteq> Num (int (card (valid_edges g))))"
  by (simp add: graph_defs name_defs valid_edges_def slot_defs)

text \<open>
  Claim C2 does not hold of the code. In the state reached by adding \<open>A\<close>, \<open>B\<close>, the edge from
  \<open>A\<close> to \<open>B\<close> and removing that edge again, no edge touches \<open>A\<close>, and \<^verbatim>\<open>removeNode('A')\<close>
  takes 1 from \<open>edgeSize\<close>: it subtracts the \<open>_edgeCount\<close> of the node, whatever the number of
  edges that touch it. (The node is returned and \<open>nodeSize\<close> is one less, as claimed.)
\<close>

theorem removeNode_overcounts:
  "run Graph_new [AddNode ''A'', AddNode ''B'', AddEdge ''A'' ''B'' None, RemoveEdge ''A'' ''B'']
     = Inr graph_unlinked \<and>
   edges_touching graph_unlinked (Key ''A'') = {} \<and>
   (\<exists>n g'. removeNode graph_unlinked ''A'' = Inr (Obj n, g') \<and>
      nodeSize g' = nodeSize graph_unlinked - 1 \<and>
      edgeSize g' = js_minus (edgeSize graph_unlinked) (Num 1) \<and>
      edgeSize g' \<noteq> js_minus (edgeSize graph_unlinked)
                       (Num (int (card (edges_touching graph_unlinked (Key ''A''))))))"
proof -
  have t: "edges_touching graph_unlinked (Key ''A'') = {}"
    by (simp add: edges_touching_def slot_defs graph_unlinked_def)
  have r: "\<exists>n g'. removeNode graph_unlinked ''A'' = Inr (Obj n, g') \<and>
      nodeSize g' = nodeSize graph_unlinked - 1 \<and>
      edgeSize g' = js_minus (edgeSize graph_unlinked) (Num 1) \<and> edgeSize g' = Num (- 1)"
    by (simp add: removeNode_def Let_def graph_unlinked_def)
  have e: "edgeSize graph_unlinked = Num 0" by (simp add: graph_unlinked_def)
  show ?thesis using graph_unlinked_reached t r e by auto
qed

text \<open>
  Claim C3. When \<^verbatim>\<open>removeEdge(fromId, toId)\<close> returns an edge, both names are keys, and the
  new state is the old one without the two slots \<^verbatim>\<open>fromNode._outEdges[toId]\<close> and
  \<^verbatim>\<open>toNode._inEdges[fromId]\<close> and with \<open>edgeSize\<close> one less. The \<open>_edgeCount\<close> of every node, and
  so of both endpoints, is what it was before the call.
\<close>

theorem removeEdge_frame:
  assumes "removeEdge g fromId toId = Inr (Obj e, g')"
  shows "\<exists>f t. key_of fromId = Some f \<and> key_of toId = Some t \<and>
         g' = (drop_in (drop_out g f t) t f)\<lparr>edgeSize := js_minus (edgeSize g) (Num 1)\<rparr> \<and>
         (\<forall>k. map_option edgeCount (nodes g' k) = map_option edgeCount (nodes g k)) \<and>
         (\<exists>n n'. nodes g f = Some n \<and> nodes g' f = Some n' \<and> edgeCount n' = edgeCount n) \<and>
         (\<exists>n n'. nodes g t = Some n \<and> nodes g' t = Some n' \<and> edgeCount n' = edgeCount n) \<and>
         nodeSize g' = nodeSize g \<and> edgeSize g' = js_minus (edgeSize g) (Num 1)"
proof -
  obtain f t where k: "key_of fromId = Some f" "key_of toId = Some t" and v: "valid_edge g f t"
    using removeEdge_Obj_valid[OF assms] by blast
  have g': "g' = (drop_in (drop_out g f t) t f)\<lparr>edgeSize := js_minus (edgeSize g) (Num 1)\<rparr>"
    using assms v by (simp add: removeEdge_eq[OF k])
  have c: "\<And>k. map_option edgeCount (nodes g' k) = map_option edgeCount (nodes g k)"
    unfolding g' by simp
  obtain nf nt where n: "nodes g f = Some nf" "nodes g t = Some nt"
    using v by (auto simp: valid_edge_def)
  have "\<exists>n'. nodes g' f = Some n' \<and> edgeCount n' = edgeCount nf"
    using c[of f] n by (cases "nodes g' f") auto
  moreover have "\<exists>n'. nodes g' t = Some n' \<and> edgeCount n' = edgeCount nt"
    using c[of t] n by (cases "nodes g' t") auto
  ultimately show ?thesis using g' c n k by simp
qed

theorem removeEdge_frame_witness:
  "removeEdge graph_AB ''A'' ''B''
     = Inr (Obj edge_AB,
            (drop_in (drop_out graph_AB (Key ''A'') (Key ''B'')) (Key ''B'') (Key ''A''))
              \<lparr>edgeSize := js_minus (edgeSize graph_AB) (Num 1)\<rparr>) \<and>
   (\<exists>n n'. nodes graph_AB (Key ''A'') = Some n \<and>
      nodes ((drop_in (drop_out graph_AB (Key ''A'') (Key ''B'')) (Key ''B'') (Key ''A''))
              \<lparr>edgeSize := js_minus (edgeSize graph_AB) (Num 1)\<rparr>) (Key ''A'')
        = Some n' \<and> edgeCount n' = edgeCount n \<and> edgeCount n = 1)"
proof -
  have r: "removeEdge graph_AB ''A'' ''B''
     = Inr (Obj edge_AB,
            (drop_in (drop_out graph_AB (Key ''A'') (Key ''B'')) (Key ''B'') (Key ''A''))
              \<lparr>edgeSize := js_minus (edgeSize graph_AB) (Num 1)\<rparr>)"
    by (simp add: removeEdge_eq[of "''A''" "Key ''A''" "''B''" "Key ''B''"] slot_defs graph_AB_def)
  have "edgeCount (the (nodes graph_AB (Key ''A''))) = 1" by (simp add: graph_AB_def)
  with removeEdge_frame[OF r] r show ?thesis by auto
qed

text \<open>
  Claim C4 does not hold of the code. \<^verbatim>\<open>addNode\<close> takes \<^verbatim>\<open>this._nodes[id]\<close> being truthy for
  the node being there, and on a plain object that is so for every name of
  \<^verbatim>\<open>Object.prototype\<close>. On a new graph, which has no node, \<^verbatim>\<open>addNode('constructor')\<close> returns
  \<^verbatim>\<open>undefined\<close>, adds nothing and leaves \<open>nodeSize\<close> at 0, and \<^verbatim>\<open>getNode('constructor')\<close> returns
  the inherited value. (For every other name the claim holds: lemma \<open>addNode_key\<close>.)
\<close>

theorem addNode_inherited_name:
  "nodes Graph_new = Map.empty \<and> nodeSize Graph_new = 0 \<and>
   addNode Graph_new ''constructor'' = Inr (Undefined, Graph_new) \<and>
   getNode Graph_new ''constructor'' = Inr (Inherited ''constructor'', Graph_new)"
  by (simp add: graph_defs name_defs)

text \<open>
  Claim C5 does not hold of the code. With \<open>A\<close> a live node, \<^verbatim>\<open>addEdge('A', 'constructor')\<close>
  names an endpoint that is no live node, and it does not return \<^verbatim>\<open>undefined\<close>: its
  \<^verbatim>\<open>getEdge\<close> call takes the inherited value for a node and throws a \<^verbatim>\<open>TypeError\<close> on reading
  \<^verbatim>\<open>toNode._inEdges[fromId]\<close>. (For two names that are keys the claim holds: lemma
  \<open>addEdge_key\<close>.)
\<close>

theorem addEdge_inherited_name:
  "get_node graph_A ''A'' \<noteq> Undefined \<and> nodes graph_A (Key ''A'') \<noteq> None \<and>
   dom (nodes graph_A) = {Key ''A''} \<and>
   addEdge graph_A ''A'' ''constructor'' None = Inl (TypeError, graph_A) \<and>
   addEdge graph_A ''constructor'' ''A'' None = Inl (TypeError, graph_A)"
proof -
  have c: "key_of ''constructor'' = None" by (simp add: name_defs)
  have 1: "addEdge graph_A ''A'' ''constructor'' None = Inl (TypeError, graph_A)"
    by (rule addEdge_throws) (simp add: c)
  have 2: "addEdge graph_A ''constructor'' ''A'' None = Inl (TypeError, graph_A)"
    by (rule addEdge_throws) (simp add: c)
  have 3: "get_node graph_A ''A'' \<noteq> Undefined" "nodes graph_A (Key ''A'') \<noteq> None"
    "dom (nodes graph_A) = {Key ''A''}"
    by (simp_all add: graph_A_def)
  show ?thesis using 1 2 3 by simp
qed

text \<open>
  Claim C6. After \<^verbatim>\<open>addEdge(A, B)\<close> returned an edge, for \<open>A \<noteq> B\<close>: \<^verbatim>\<open>getEdge(A, B)\<close> returns
  that edge, and \<^verbatim>\<open>getEdge(B, A)\<close> returns what it returned before the edge was added, which
  is \<^verbatim>\<open>undefined\<close> unless a valid edge from \<open>B\<close> to \<open>A\<close> was there.
\<close>

theorem addEdge_directed:
  assumes "addEdge g A B w = Inr (Obj e, g')" and "A \<noteq> B"
  shows "getEdge g' A B = Inr (Obj e, g') \<and>
         (\<exists>r g0 g1. getEdge g B A = Inr (r, g0) \<and> getEdge g' B A = Inr (r, g1)) \<and>
         (\<exists>a b. key_of A = Some a \<and> key_of B = Some b \<and>
            (\<not> valid_edge g b a \<longrightarrow> (\<exists>g1. getEdge g' B A = Inr (Undefined, g1))))"
proof -
  have "\<not> (key_of A = None \<or> key_of B = None)"
  proof
    assume "key_of A = None \<or> key_of B = None"
    from addEdge_throws[OF this, of g w] assms(1) show False by simp
  qed
  then obtain a b where k: "key_of A = Some a" "key_of B = Some b" by auto
  have ab: "a \<noteq> b" using k assms(2) key_of_inj by auto
  have "\<not> (valid_edge g a b \<or> nodes g a = None \<or> nodes g b = None)"
  proof
    assume "valid_edge g a b \<or> nodes g a = None \<or> nodes g b = None"
    from addEdge_reject[OF k this, of w] assms(1) show False by simp
  qed
  then have a: "\<not> valid_edge g a b" "nodes g a \<noteq> None" "nodes g b \<noteq> None"
    by simp_all
  let ?e = "\<lparr>e_ref = nextRef g, e_fromId = A, e_toId = B,
             weight = (case w of None \<Rightarrow> 1 | Some x \<Rightarrow> x)\<rparr>"
  have e: "e = ?e" and g': "g' = link (purge g a b) a b ?e"
    using assms(1) unfolding addEdge_accept[OF k a] by auto
  have l: "nodes (purge g a b) a \<noteq> None" "nodes (purge g a b) b \<noteq> None"
    using a by simp_all
  have v: "\<And>x y. valid_edge g' x y = (valid_edge g x y \<or> (x = a \<and> y = b))"
    unfolding g' by (simp add: valid_edge_link[OF l])
  have o: "\<And>x y. out_slot g' x y = (if x = a \<and> y = b then Some e else out_slot (purge g a b) x y)"
    unfolding g' e by (simp add: out_slot_link[OF l(1)])
  have 1: "getEdge g' A B = Inr (Obj e, g')"
    by (simp add: getEdge_eq[OF k] v o purge_valid)
  have 2: "valid_edge g' b a = valid_edge g b a" using ab by (auto simp: v)
  have 3: "out_slot g' b a = out_slot g b a"
    using ab by (auto simp: o out_slot_purge)
  show ?thesis using 1 2 3 k by (simp add: getEdge_eq[OF k(2) k(1)])
qed

theorem addEdge_directed_witness:
  "addEdge graph_A_B ''A'' ''B'' None = Inr (Obj edge_AB, graph_AB) \<and> ''A'' \<noteq> ''B'' \<and>
   getEdge graph_AB ''A'' ''B'' = Inr (Obj edge_AB, graph_AB) \<and>
   \<not> valid_edge graph_A_B (Key ''B'') (Key ''A'') \<and>
   (\<exists>g1. getEdge graph_AB ''B'' ''A'' = Inr (Undefined, g1))"
proof -
  have n: "''A'' \<noteq> ''B''" by simp
  have v: "\<not> valid_edge graph_A_B (Key ''B'') (Key ''A'')" by (simp add: slot_defs graph_A_B_def)
  from addEdge_directed[OF addEdge_graph_A_B n] v addEdge_graph_A_B show ?thesis by auto
qed

text \<open>
  Claim C7. A \<^verbatim>\<open>getEdge(fromId, toId)\<close> call that throws has written nothing. One that
  returns leaves \<open>edgeSize\<close> and \<open>nodeSize\<close> as they were and adds or removes no node; either
  the state is unchanged, or the result is \<^verbatim>\<open>undefined\<close>, the edge was not valid, and the new
  state is the old one without the one slot \<^verbatim>\<open>fromNode._outEdges[toId]\<close> or without the one
  slot \<^verbatim>\<open>toNode._inEdges[fromId]\<close>. The call returns whenever both names are keys.
\<close>

theorem getEdge_frame:
  "(case getEdge g fromId toId of
      Inl (err, g') \<Rightarrow> g' = g
    | Inr (r, g') \<Rightarrow>
        edgeSize g' = edgeSize g \<and> nodeSize g' = nodeSize g \<and>
        dom (nodes g') = dom (nodes g) \<and>
        (g' = g \<or>
         (r = Undefined \<and>
          (\<exists>f t. key_of fromId = Some f \<and> key_of toId = Some t \<and> \<not> valid_edge g f t \<and>
             (g' = drop_out g f t \<or> g' = drop_in g t f))))) \<and>
   (key_of fromId \<noteq> None \<and> key_of toId \<noteq> None \<longrightarrow>
      (\<exists>r g'. getEdge g fromId toId = Inr (r, g')))"
proof (cases "key_of fromId = None \<or> key_of toId = None")
  case True
  then show ?thesis by (auto simp: getEdge_throws)
next
  case False
  then obtain f t where k: "key_of fromId = Some f" "key_of toId = Some t" by auto
  have d: "dom (nodes (purge g f t)) = dom (nodes g)"
    by (auto simp: dom_def)
  show ?thesis
    unfolding getEdge_eq[OF k] using d k by (auto simp: purge_def)
qed

theorem getEdge_frame_witness:
  "key_of ''A'' \<noteq> None \<and> key_of ''B'' \<noteq> None \<and>
   (\<exists>r g'. getEdge graph_ghost ''A'' ''B'' = Inr (r, g') \<and>
     edgeSize g' = Num 0 \<and> nodeSize g' = 1 \<and> dom (nodes g') = {Key ''B''} \<and>
     r = Undefined \<and> g' = drop_in graph_ghost (Key ''B'') (Key ''A'') \<and> g' \<noteq> graph_ghost) \<and>
   getEdge graph_ghost ''constructor'' ''B'' = Inl (TypeError, graph_ghost)"
proof -
  have k: "key_of ''A'' \<noteq> None \<and> key_of ''B'' \<noteq> None" by simp
  have 1: "getEdge graph_ghost ''A'' ''B'' = Inr (Undefined, drop_in graph_ghost (Key ''B'') (Key ''A''))"
    by (simp add: getEdge_eq[of "''A''" "Key ''A''" "''B''" "Key ''B''"] purge_def slot_defs
        graph_ghost_def)
  have 2: "drop_in graph_ghost (Key ''B'') (Key ''A'') \<noteq> graph_ghost"
  proof
    assume "drop_in graph_ghost (Key ''B'') (Key ''A'') = graph_ghost"
    then have "in_slot (drop_in graph_ghost (Key ''B'') (Key ''A'')) (Key ''B'') (Key ''A'')
                 = in_slot graph_ghost (Key ''B'') (Key ''A'')" by simp
    then show False by (simp add: slot_defs graph_ghost_def)
  qed
  have 3: "getEdge graph_ghost ''constructor'' ''B'' = Inl (TypeError, graph_ghost)"
    by (rule getEdge_throws) (simp add: name_defs)
  have e: "edgeSize graph_ghost = Num 0" "nodeSize graph_ghost = 1"
    "dom (nodes graph_ghost) = {Key ''B''}"
    by (simp_all add: graph_ghost_def)
  from getEdge_frame[of graph_ghost "''A''" "''B''"] 1 2 3 k e show ?thesis by simp
qed

text \<open>
  Claim C8. Let \<open>g\<close> be the state \<^verbatim>\<open>removeNode(A)\<close> leaves when \<open>A\<close> had a valid edge to \<open>B\<close>.
  Over any list of reads \<^verbatim>\<open>getEdge(A, B)\<close>, \<^verbatim>\<open>getOutEdgesOf(B)\<close> and \<^verbatim>\<open>getInEdgesOf(B)\<close>, made
  one after the other: every \<^verbatim>\<open>getEdge\<close> returns \<^verbatim>\<open>undefined\<close>; every \<^verbatim>\<open>getOutEdgesOf\<close> returns
  the list the first one returns and every \<^verbatim>\<open>getInEdgesOf\<close> likewise, and no edge of these
  lists comes from a slot of \<open>A\<close>; and \<open>edgeSize\<close> after every call is the \<open>edgeSize\<close> of \<open>g\<close>.
\<close>

theorem ghost_reads_idempotent:
  assumes "key_of A = Some a" and "key_of B = Some b"
    and "valid_edge g0 a b" and "removeNode g0 A = Inr (r, g)"
  shows "\<exists>outs ins as g'.
     (\<exists>g1. getOutEdgesOf g B = Inr (outs, g1)) \<and>
     (\<exists>g1. getInEdgesOf g B = Inr (ins, g1)) \<and>
     (\<forall>x \<in> set outs. \<exists>t e. t \<noteq> a \<and> out_slot g b t = Some e \<and> x = Obj e) \<and>
     (\<forall>x \<in> set ins. \<exists>f e. f \<noteq> a \<and> out_slot g f b = Some e \<and> x = Obj e) \<and>
     probe_all g A B ps = Inr (as, g') \<and>
     as = map (\<lambda>p. (case p of ProbeEdge \<Rightarrow> EdgeAnswer Undefined
                             | ProbeOut \<Rightarrow> ListAnswer outs
                             | ProbeIn \<Rightarrow> ListAnswer ins, edgeSize g)) ps"
proof -
  have d: "nodes g a = None" by (rule removeNode_dead[OF assms(1,4)])
  have nv: "\<And>x. \<not> valid_edge g a x" "\<And>x. \<not> valid_edge g x a"
    using d by (simp_all add: valid_edge_def)
  obtain g' where p: "probe_all g A B ps = Inr (map (\<lambda>p. (settled g b p, edgeSize g)) ps, g')"
    using probe_all_cleaned[OF assms(1,2) d cleaned_refl] by blast
  have s: "\<And>p. settled g b p = (case p of ProbeEdge \<Rightarrow> EdgeAnswer Undefined
                  | ProbeOut \<Rightarrow> ListAnswer (map Obj (valid_outs g b (out_keys g b)))
                  | ProbeIn \<Rightarrow> ListAnswer (map Obj (valid_ins g b (in_keys g b))))"
    by (case_tac p) simp_all
  have o: "\<forall>x \<in> set (valid_outs g b (out_keys g b)). \<exists>t. t \<noteq> a \<and> out_slot g b t = Some x"
    using valid_outs_mem nv by metis
  have i: "\<forall>x \<in> set (valid_ins g b (in_keys g b)). \<exists>f. f \<noteq> a \<and> out_slot g f b = Some x"
    using valid_ins_mem nv by metis
  show ?thesis
    apply (rule exI[of _ "map Obj (valid_outs g b (out_keys g b))"])
    apply (rule exI[of _ "map Obj (valid_ins g b (in_keys g b))"])
    using p o i by (auto simp: getOutEdgesOf_eq[OF assms(2)] getInEdgesOf_eq[OF assms(2)] s)
qed

theorem ghost_reads_idempotent_witness:
  "key_of ''A'' = Some (Key ''A'') \<and> key_of ''B'' = Some (Key ''B'') \<and>
   valid_edge graph_AB (Key ''A'') (Key ''B'') \<and>
   removeNode graph_AB ''A'' =
     Inr (Obj \<lparr>n_id = ''A'', outEdges = [(Key ''B'', edge_AB)], inEdges = [], edgeCount = 1\<rparr>,
          graph_ghost) \<and>
   in_slot graph_ghost (Key ''B'') (Key ''A'') = Some edge_AB \<and>
   (\<exists>g'. probe_all graph_ghost ''A'' ''B'' [ProbeIn, ProbeEdge, ProbeOut, ProbeIn, ProbeEdge]
      = Inr ([(ListAnswer [], Num 0), (EdgeAnswer Undefined, Num 0), (ListAnswer [], Num 0),
              (ListAnswer [], Num 0), (EdgeAnswer Undefined, Num 0)], g'))"
proof -
  have v: "valid_edge graph_AB (Key ''A'') (Key ''B'')" by (simp add: slot_defs graph_AB_def)
  have g: "in_slot graph_ghost (Key ''B'') (Key ''A'') = Some edge_AB"
    by (simp add: slot_defs graph_ghost_def)
  have o: "getOutEdgesOf graph_ghost ''B'' = Inr ([], graph_ghost)"
    by (simp add: getOutEdgesOf_def graph_ghost_def)
  have e: "edgeSize graph_ghost = Num 0" by (simp add: graph_ghost_def)
  have i: "\<exists>g1. getInEdgesOf graph_ghost ''B'' = Inr ([], g1)"
    by (simp add: getInEdgesOf_eq[of "''B''" "Key ''B''"] valid_ins_def slot_defs graph_ghost_def)
  from ghost_reads_idempotent[OF key_A_B(1) key_A_B(2) v removeNode_graph_AB,
      of "[ProbeIn, ProbeEdge, ProbeOut, ProbeIn, ProbeEdge]"] o i e
  have "\<exists>g'. probe_all graph_ghost ''A'' ''B'' [ProbeIn, ProbeEdge, ProbeOut, ProbeIn, ProbeEdge]
      = Inr ([(ListAnswer [], Num 0), (EdgeAnswer Undefined, Num 0), (ListAnswer [], Num 0),
              (ListAnswer [], Num 0), (EdgeAnswer Undefined, Num 0)], g')"
    by auto
  with v g removeNode_graph_AB show ?thesis by simp
qed

text \<open>
  Claim C9. Let \<open>k\<close> be a live node whose dictionaries list every key once, as the
  dictionaries of a JavaScript object do. If the valid edges touching \<open>k\<close> are its
  self-loop \<open>s\<close> and one other out-edge \<open>e\<close>, then \<^verbatim>\<open>getAllEdgesOf\<close> of its name returns exactly
  two edges, \<open>s\<close> once and \<open>e\<close> once, whatever ghost slots the node still carries.
\<close>

theorem getAllEdgesOf_self_loop:
  assumes name: "key_of nodeId = Some k"
    and keys: "distinct (in_keys g k)" "distinct (out_keys g k)"
    and self: "valid_edge g k k" "out_slot g k k = Some s"
    and other: "valid_edge g k t" "t \<noteq> k" "out_slot g k t = Some e"
    and outs: "\<forall>x. valid_edge g k x \<longrightarrow> x = k \<or> x = t"
    and ins: "\<forall>x. valid_edge g x k \<longrightarrow> x = k"
  shows "\<exists>es g'. getAllEdgesOf g nodeId = Inr (es, g') \<and> length es = 2 \<and>
           (es = [Obj s, Obj e] \<or> es = [Obj e, Obj s])"
proof -
  let ?g1 = "sweep_in g k (in_keys g k)"
  let ?g2 = "sweep_out ?g1 k (out_keys ?g1 k)"
  have c1: "cleaned g ?g1" by simp
  have c2: "cleaned g ?g2" by (rule cleaned_trans[OF c1]) simp
  have pin: "(\<lambda>f. valid_edge g f k) = (\<lambda>f. f = k)"
    using ins self(1) by (auto simp: fun_eq_iff)
  have pout: "valid_edge g k = (\<lambda>x. x = k \<or> x = t)"
    using outs self(1) other(1) by (auto simp: fun_eq_iff)
  have kin: "k \<in> set (in_keys g k)"
    using self(1) by (intro in_slot_key) (simp add: valid_edge_def)
  have kout: "k \<in> set (out_keys g k)" "t \<in> set (out_keys g k)"
    using self(2) other(3) by (auto intro!: out_slot_key)
  have inE: "valid_ins g k (in_keys g k) = [s]"
    unfolding valid_ins_def pin using filter_eq_single[OF keys(1) kin] self(2) by simp
  have outE: "valid_outs g k (out_keys g k) = [s, e] \<or> valid_outs g k (out_keys g k) = [e, s]"
    unfolding valid_outs_def pout
    using filter_eq_pair[OF keys(2) kout] other(2) self(2) other(3) by auto
  have outE': "valid_outs ?g1 k (out_keys ?g1 k) = valid_outs g k (out_keys g k)"
    by (rule cleaned_out_result[OF c1])
  have v2: "valid_edge ?g2 k k" using cleaned_valid[OF c2] self(1) by simp
  have s2: "out_slot ?g2 k k = Some s"
    using c2 self by (simp add: cleaned_def)
  have "getAllEdgesOf g nodeId = Inr (map Obj (valid_outs g k (out_keys g k)), ?g2)"
    unfolding getAllEdgesOf_def getInEdgesOf_eq[OF name] inE
    using v2 s2
    by (simp add: getOutEdgesOf_eq[OF name] outE' getEdge_eq[OF name name] purge_valid
        dropSelfEdge_single strict_eq_def)
  with outE show ?thesis by auto
qed

theorem getAllEdgesOf_self_loop_witness:
  "key_of ''A'' = Some (Key ''A'') \<and>
   distinct (in_keys graph_loop (Key ''A'')) \<and> distinct (out_keys graph_loop (Key ''A'')) \<and>
   valid_edge graph_loop (Key ''A'') (Key ''A'') \<and>
   out_slot graph_loop (Key ''A'') (Key ''A'') = Some edge_AA \<and>
   valid_edge graph_loop (Key ''A'') (Key ''B'') \<and> Key ''B'' \<noteq> Key ''A'' \<and>
   out_slot graph_loop (Key ''A'') (Key ''B'') = Some edge_AB1 \<and>
   (\<exists>es g'. getAllEdgesOf graph_loop ''A'' = Inr (es, g') \<and> length es = 2 \<and>
      (es = [Obj edge_AA, Obj edge_AB1] \<or> es = [Obj edge_AB1, Obj edge_AA]))"
proof -
  have 1: "distinct (in_keys graph_loop (Key ''A''))" "distinct (out_keys graph_loop (Key ''A''))"
    by (simp_all add: slot_defs graph_loop_def)
  have 2: "valid_edge graph_loop (Key ''A'') (Key ''A'')"
    "out_slot graph_loop (Key ''A'') (Key ''A'') = Some edge_AA"
    by (simp_all add: slot_defs graph_loop_def)
  have 3: "valid_edge graph_loop (Key ''A'') (Key ''B'')" "Key ''B'' \<noteq> Key ''A''"
    "out_slot graph_loop (Key ''A'') (Key ''B'') = Some edge_AB1"
    by (simp_all add: slot_defs graph_loop_def)
  have 4: "\<forall>x. valid_edge graph_loop (Key ''A'') x \<longrightarrow> x = Key ''A'' \<or> x = Key ''B''"
    by (auto simp: slot_defs graph_loop_def split: if_splits)
  have 5: "\<forall>x. valid_edge graph_loop x (Key ''A'') \<longrightarrow> x = Key ''A''"
    by (auto simp: slot_defs graph_loop_def split: if_splits)
  from getAllEdgesOf_self_loop[OF key_A_B(1) 1 2 3 4 5] 1 2 3 key_A_B(1) show ?thesis by blast
qed

text \<open>
  Claim C10 does not hold of the code. The operations test \<^verbatim>\<open>this._nodes[id]\<close> for
  truthiness, and a name of \<^verbatim>\<open>Object.prototype\<close> gives a truthy value that is no node. On a
  new graph \<^verbatim>\<open>getEdge\<close>, \<^verbatim>\<open>addEdge\<close> and \<^verbatim>\<open>removeEdge\<close> with the name \<^verbatim>\<open>constructor\<close> throw a
  \<^verbatim>\<open>TypeError\<close>, and \<^verbatim>\<open>removeNode('toString')\<close> returns the inherited value, takes \<open>nodeSize\<close> to
  -1 and \<open>edgeSize\<close> to \<^verbatim>\<open>NaN\<close>. (With names that are keys every operation returns: lemma
  \<open>operations_return_on_keys\<close>.)
\<close>

theorem operations_on_inherited_names:
  "getEdge Graph_new ''constructor'' ''A'' = Inl (TypeError, Graph_new) \<and>
   addEdge Graph_new ''constructor'' ''A'' None = Inl (TypeError, Graph_new) \<and>
   removeEdge Graph_new ''A'' ''constructor'' = Inl (TypeError, Graph_new) \<and>
   removeNode Graph_new ''toString''
     = Inr (Inherited ''toString'', Graph_new\<lparr>edgeSize := NaN, nodeSize := - 1\<rparr>) \<and>
   getNode Graph_new ''toString'' = Inr (Inherited ''toString'', Graph_new)"
proof -
  have c: "key_of ''constructor'' = None" "key_of ''toString'' = None"
    by (simp_all add: name_defs)
  have 1: "getEdge Graph_new ''constructor'' ''A'' = Inl (TypeError, Graph_new)"
    by (rule getEdge_throws) (simp add: c)
  have 2: "addEdge Graph_new ''constructor'' ''A'' None = Inl (TypeError, Graph_new)"
    by (rule addEdge_throws) (simp add: c)
  have 3: "removeEdge Graph_new ''A'' ''constructor'' = Inl (TypeError, Graph_new)"
    by (rule removeEdge_throws) (simp add: c)
  have 4: "removeNode Graph_new ''toString''
     = Inr (Inherited ''toString'', Graph_new\<lparr>edgeSize := NaN, nodeSize := - 1\<rparr>)"
    by (simp add: removeNode_def Let_def c Graph_new_def)
  have 5: "getNode Graph_new ''toString'' = Inr (Inherited ''toString'', Graph_new)"
    by (simp add: getNode_def c)
  show ?thesis using 1 2 3 4 5 by simp
qed

end
